theory Spec2Isabelle
  imports Main "HOL-Library.Word"
begin

section \<open>Errors\<close>

text \<open>
  Everything of query.cc that leaves a function other than by returning is a value of
  \<open>error\<close>: a thrown \<open>exc_t\<close> (it carries its kind and the backtrace id; the message
  text is left out), a thrown \<open>bt_exc_t\<close> (its response code; the backtrace is always
  \<open>EMPTY_BACKTRACE\<close> here), a failed \<open>guarantee\<close> (the process halts), a failed
  \<open>r_sanity_check\<close>, and the dereference of a null pointer.
\<close>

type_synonym backtrace_id_t = nat

datatype base_exc_type = GENERIC

datatype response_type = CLIENT_ERROR

datatype error =
    exc_t base_exc_type backtrace_id_t
  | bt_exc_t response_type
  | guarantee_failed
  | r_sanity_check_failed
  | null_dereference

section \<open>The query-id allocator\<close>

text \<open>
  The part of \<open>query_cache_t\<close> that \<open>query_params_t::query_id_t\<close> reads and writes:
  the counter \<open>next_query_id\<close> (a \<open>uint64_t\<close>: the increment wraps), the watermark
  \<open>oldest_outstanding_query_id\<close> and the intrusive list \<open>outstanding_query_ids\<close>, head
  first. A linked handle is represented in the list by its \<open>value_\<close>; \<open>in_a_list\<close> of a
  handle is membership of its value, and \<open>remove(this)\<close> removes that entry. (Under
  \<open>alloc_inv\<close> below the values of the list are pairwise distinct, so the entry is
  unique.)
\<close>

type_synonym uint64_t = "64 word"

record query_cache_t =
  next_query_id :: uint64_t
  oldest_outstanding_query_id :: uint64_t
  outstanding_query_ids :: "uint64_t list"

text \<open>\<open>intrusive_list_t::head()\<close> and \<open>tail()\<close>: \<open>nullptr\<close> on the empty list.\<close>

definition head :: "'a list \<Rightarrow> 'a option" where
  "head xs = (case xs of [] \<Rightarrow> None | x # _ \<Rightarrow> Some x)"

definition tail :: "'a list \<Rightarrow> 'a option" where
  "tail xs = (if xs = [] then None else Some (last xs))"

text \<open>
  \<open>query_id_t::query_id_t(query_cache_t *)\<close>, lines 53 to 62. The result is the new
  handle's \<open>value_\<close> and the updated cache.
\<close>

definition query_id_ctor :: "query_cache_t \<Rightarrow> error + (uint64_t \<times> query_cache_t)" where
  "query_id_ctor parent =
     (let this_value = next_query_id parent;
          parent1 = parent\<lparr>next_query_id := next_query_id parent + 1\<rparr>;
          last_newest = tail (outstanding_query_ids parent1)
      in if \<not> (case last_newest of None \<Rightarrow> True | Some l \<Rightarrow> l < this_value)
         then Inl guarantee_failed
         else if \<not> (this_value \<ge> oldest_outstanding_query_id parent1)
         then Inl guarantee_failed
         else Inr (this_value,
                   parent1\<lparr>outstanding_query_ids := outstanding_query_ids parent1 @ [this_value]\<rparr>))"

text \<open>
  \<open>query_id_t::~query_id_t()\<close>, lines 64 to 83, for the handle with the given
  \<open>value_\<close>. A handle that is in no list (moved from, or never linked) is destroyed
  without any effect on the cache.
\<close>

definition query_id_dtor :: "uint64_t \<Rightarrow> query_cache_t \<Rightarrow> error + query_cache_t" where
  "query_id_dtor this_value parent =
     (if this_value \<in> set (outstanding_query_ids parent) then
        (let parent1 = parent\<lparr>outstanding_query_ids := remove1 this_value (outstanding_query_ids parent)\<rparr>
         in if this_value = oldest_outstanding_query_id parent1 then
              (case head (outstanding_query_ids parent1) of
                 None \<Rightarrow> Inr (parent1\<lparr>oldest_outstanding_query_id := next_query_id parent1\<rparr>)
               | Some next_outstanding_id \<Rightarrow>
                   if \<not> (next_outstanding_id > this_value) then Inl guarantee_failed
                   else Inr (parent1\<lparr>oldest_outstanding_query_id := next_outstanding_id\<rparr>))
            else Inr parent1)
      else Inr parent)"

text \<open>
  A session is a sequence of constructions and destructions of handles. \<open>run_ops\<close>
  returns the values of the handles constructed, in the order of construction, and the
  cache at the end; it stops at the first failed \<open>guarantee\<close>.
\<close>

datatype alloc_op = Acquire | Release uint64_t

fun run_ops :: "alloc_op list \<Rightarrow> query_cache_t \<Rightarrow> error + (uint64_t list \<times> query_cache_t)" where
  "run_ops [] qc = Inr ([], qc)"
| "run_ops (Acquire # ops) qc =
     (case query_id_ctor qc of
        Inl e \<Rightarrow> Inl e
      | Inr (v, qc1) \<Rightarrow>
          (case run_ops ops qc1 of
             Inl e \<Rightarrow> Inl e
           | Inr (vs, qc2) \<Rightarrow> Inr (v # vs, qc2)))"
| "run_ops (Release v # ops) qc =
     (case query_id_dtor v qc of
        Inl e \<Rightarrow> Inl e
      | Inr qc1 \<Rightarrow> run_ops ops qc1)"

text \<open>The watermark agrees with the list: the head's value, or the counter.\<close>

definition watermark_ok :: "query_cache_t \<Rightarrow> bool" where
  "watermark_ok qc \<longleftrightarrow>
     oldest_outstanding_query_id qc =
       (case outstanding_query_ids qc of [] \<Rightarrow> next_query_id qc | h # _ \<Rightarrow> h)"

text \<open>
  The state of an allocator between operations: the list is strictly increasing from
  the head, and the watermark agrees with it. The constructor of \<open>query_cache_t\<close> is
  not part of query.cc; a fresh allocator (counter and watermark equal, list empty)
  is one such state.
\<close>

definition alloc_inv :: "query_cache_t \<Rightarrow> bool" where
  "alloc_inv qc \<longleftrightarrow> sorted_wrt (<) (outstanding_query_ids qc) \<and> watermark_ok qc"

text \<open>The same, with every outstanding value below the counter (no wrap-around yet).\<close>

definition alloc_inv_below :: "query_cache_t \<Rightarrow> bool" where
  "alloc_inv_below qc \<longleftrightarrow>
     alloc_inv qc \<and> list_all (\<lambda>v. v < next_query_id qc) (outstanding_query_ids qc)"

fun count_acquires :: "alloc_op list \<Rightarrow> nat" where
  "count_acquires [] = 0"
| "count_acquires (Acquire # ops) = Suc (count_acquires ops)"
| "count_acquires (Release v # ops) = count_acquires ops"

section \<open>JSON documents\<close>

text \<open>
  A \<open>rapidjson::Value\<close>. An object keeps its members in document order, duplicates
  included. A number is represented by the \<open>int\<close> that \<open>GetInt()\<close> reads from it, a
  member name by the C string that \<open>GetString()\<close> returns.
\<close>

datatype json =
    JNull
  | JBool bool
  | JObject "(string \<times> json) list"
  | JArray "json list"
  | JString string
  | JNumber int

datatype json_type =
  kNullType | kFalseType | kTrueType | kObjectType | kArrayType | kStringType | kNumberType

fun GetType :: "json \<Rightarrow> json_type" where
  "GetType JNull = kNullType"
| "GetType (JBool b) = (if b then kTrueType else kFalseType)"
| "GetType (JObject ms) = kObjectType"
| "GetType (JArray xs) = kArrayType"
| "GetType (JString s) = kStringType"
| "GetType (JNumber n) = kNumberType"

definition IsArray :: "json \<Rightarrow> bool" where
  "IsArray v \<longleftrightarrow> GetType v = kArrayType"

definition IsObject :: "json \<Rightarrow> bool" where
  "IsObject v \<longleftrightarrow> GetType v = kObjectType"

definition IsNumber :: "json \<Rightarrow> bool" where
  "IsNumber v \<longleftrightarrow> GetType v = kNumberType"

text \<open>
  \<open>Size()\<close>, \<open>operator[]\<close> and \<open>GetInt()\<close> are only called where the type has been
  checked; on a value of another type they are given a fixed result here. \<open>elems\<close> is
  the sequence of the elements of an array, \<open>members\<close> that of the members of an object.
\<close>

fun Size :: "json \<Rightarrow> nat" where
  "Size (JArray xs) = length xs"
| "Size v = 0"

fun elem :: "json \<Rightarrow> nat \<Rightarrow> json" where
  "elem (JArray xs) i = (if i < length xs then xs ! i else JNull)"
| "elem v i = JNull"

fun elems :: "json \<Rightarrow> json list" where
  "elems (JArray xs) = xs"
| "elems v = []"

fun GetInt :: "json \<Rightarrow> int" where
  "GetInt (JNumber n) = n"
| "GetInt v = 0"

fun members :: "json \<Rightarrow> (string \<times> json) list" where
  "members (JObject ms) = ms"
| "members v = []"


section \<open>Datums and term types\<close>

text \<open>
  Modelled from the spec: \<open>datum_t\<close> (rdb_protocol/datum.hpp) is not among the sources.
  The spec calls the datum an immutable value of the query language (scalar, array, or
  object of datums). \<open>UNINITIALIZED\<close> is the default-constructed \<open>datum_t\<close>, for which
  \<open>has()\<close> is false.
\<close>

datatype datum_t =
    UNINITIALIZED
  | R_NULL
  | R_BOOL bool
  | R_NUM int
  | R_STR string
  | R_ARRAY "datum_t list"
  | R_OBJECT "(string \<times> datum_t) list"

fun has :: "datum_t \<Rightarrow> bool" where
  "has UNINITIALIZED = False"
| "has d = True"

text \<open>
  \<open>to_datum\<close> (rdb_protocol/datum.hpp) is not among the sources either. Every function
  of query.cc that calls it, itself or through a function it calls, takes it as its
  first argument here: a call of \<open>to_datum\<close> gives the datum, or the exception it
  raises. query.cc calls it outside of any \<open>try\<close> block, so an exception of
  \<open>to_datum\<close> leaves the function that called it.
\<close>

type_synonym to_datum_t = "json \<Rightarrow> error + datum_t"

text \<open>
  Modelled from the spec: the enumerators of \<open>Term::TermType\<close> are declared in
  ql2.proto, which is not among the sources; the spec names \<open>DATUM\<close>, \<open>MAKE_OBJ\<close> and
  \<open>NOW\<close>, and the numbers are those of the wire protocol. \<open>REFERENCE\<close> is line 192 of
  query.cc. The enumeration's underlying type is \<open>int\<close>; a term type is only ever
  compared, and the casts between \<open>int\<close>, \<open>int32_t\<close> and \<open>TermType\<close> keep the value.
\<close>

type_synonym TermType = int

definition DATUM :: TermType where
  "DATUM = 1"

definition MAKE_OBJ :: TermType where
  "MAKE_OBJ = 3"

definition NOW :: TermType where
  "NOW = 103"

definition REFERENCE :: TermType where
  "REFERENCE = - 1"

section \<open>Checks of the parser\<close>

text \<open>\<open>check_type\<close> (lines 26 to 35) and \<open>check_term_size\<close> (lines 37 to 43).\<close>

definition check_type :: "json \<Rightarrow> json_type \<Rightarrow> backtrace_id_t \<Rightarrow> error + unit" where
  "check_type v expected_type bt =
     (if GetType v \<noteq> expected_type then Inl (exc_t GENERIC bt) else Inr ())"

definition check_term_size :: "json \<Rightarrow> backtrace_id_t \<Rightarrow> error + unit" where
  "check_term_size v bt =
     (if Size v = 0 \<or> Size v > 3 then Inl (exc_t GENERIC bt) else Inr ())"

section \<open>Terms\<close>

text \<open>
  A \<open>raw_term_t\<close> with what its pointers lead to: \<open>src\<close> is the target of the pointer
  (\<open>None\<close> for \<open>nullptr\<close>), \<open>args_list\<close> and \<open>optargs_list\<close> are the terms linked in the
  intrusive lists \<open>args_\<close> and \<open>optargs_\<close>, head first. The parser and the codecs build
  and read terms through this view; the arena with its pointers is modelled in the
  section on the arena below. \<open>rassert\<close> is compiled out of a release build and is
  not modelled.
\<close>

datatype raw_term_t =
  Raw_term (type: TermType) (bt: backtrace_id_t) (optarg_name: string) (datum: datum_t)
    (src: "raw_term_t option") (args_list: "raw_term_t list") (optargs_list: "raw_term_t list")

text \<open>
  The term that \<open>new_term(type, bt)\<close> (lines 314 to 319) appends to \<open>terms\<close>: default
  constructed, with \<open>type\<close> and \<open>bt\<close> set.
\<close>

definition new_term_value :: "TermType \<Rightarrow> backtrace_id_t \<Rightarrow> raw_term_t" where
  "new_term_value ty bt_id = Raw_term ty bt_id [] UNINITIALIZED None [] []"

text \<open>Assignments to one field of a term.\<close>

definition set_type :: "TermType \<Rightarrow> raw_term_t \<Rightarrow> raw_term_t" where
  "set_type ty t =
     Raw_term ty (bt t) (optarg_name t) (datum t) (src t) (args_list t) (optargs_list t)"

definition set_optarg_name :: "string \<Rightarrow> raw_term_t \<Rightarrow> raw_term_t" where
  "set_optarg_name name t =
     Raw_term (type t) (bt t) name (datum t) (src t) (args_list t) (optargs_list t)"

definition set_datum :: "datum_t \<Rightarrow> raw_term_t \<Rightarrow> raw_term_t" where
  "set_datum d t =
     Raw_term (type t) (bt t) (optarg_name t) d (src t) (args_list t) (optargs_list t)"

definition set_args :: "raw_term_t list \<Rightarrow> raw_term_t \<Rightarrow> raw_term_t" where
  "set_args ts t =
     Raw_term (type t) (bt t) (optarg_name t) (datum t) (src t) ts (optargs_list t)"

definition set_optargs :: "raw_term_t list \<Rightarrow> raw_term_t \<Rightarrow> raw_term_t" where
  "set_optargs ts t =
     Raw_term (type t) (bt t) (optarg_name t) (datum t) (src t) (args_list t) ts"

text \<open>
  \<open>num_args()\<close>, \<open>num_optargs()\<close>, \<open>args()\<close> and \<open>optargs()\<close> (lines 197 to 231): a
  \<open>REFERENCE\<close> answers with the lists of its target.
\<close>

definition args :: "raw_term_t \<Rightarrow> error + raw_term_t list" where
  "args t =
     (if type t = REFERENCE then
        (case src t of None \<Rightarrow> Inl null_dereference | Some s \<Rightarrow> Inr (args_list s))
      else Inr (args_list t))"

definition optargs :: "raw_term_t \<Rightarrow> error + raw_term_t list" where
  "optargs t =
     (if type t = REFERENCE then
        (case src t of None \<Rightarrow> Inl null_dereference | Some s \<Rightarrow> Inr (optargs_list s))
      else Inr (optargs_list t))"

definition num_args :: "raw_term_t \<Rightarrow> error + nat" where
  "num_args t = (case args t of Inl e \<Rightarrow> Inl e | Inr ts \<Rightarrow> Inr (length ts))"

definition num_optargs :: "raw_term_t \<Rightarrow> error + nat" where
  "num_optargs t = (case optargs t of Inl e \<Rightarrow> Inl e | Inr ts \<Rightarrow> Inr (length ts))"

section \<open>The state of a term storage\<close>

text \<open>
  Modelled from the spec: \<open>backtrace_registry_t::new_frame\<close> (rdb_protocol/backtrace.hpp)
  is not among the sources. The spec calls the registry a simple append-only store of
  source positions that allocates identifiers; a frame is kept as the parent's id and
  the label, and the id of a new frame is its index. \<open>backtrace_id_t::empty()\<close> is the
  id of the root frame.
\<close>

type_synonym backtrace_registry_t = "(backtrace_id_t \<times> datum_t) list"

definition empty_bt :: backtrace_id_t where
  "empty_bt = 0"

definition new_frame ::
  "backtrace_id_t \<Rightarrow> datum_t \<Rightarrow> backtrace_registry_t \<Rightarrow> backtrace_id_t \<times> backtrace_registry_t" where
  "new_frame parent_bt val frames = (length frames, frames @ [(parent_bt, val)])"

text \<open>
  What the parser reads and writes of a \<open>term_storage_t\<close>, and the wall clock.
  \<open>start_time\<close> is \<open>UNINITIALIZED\<close> until \<open>get_time\<close> sets it. The clock is outside
  the program: \<open>clock k\<close> is what the \<open>k\<close>-th reading of it gives, \<open>clock_reads\<close>
  counts the readings made so far.
\<close>

record term_storage_t =
  backtrace_registry :: backtrace_registry_t
  global_optarg_list :: "raw_term_t list"
  start_time :: datum_t
  clock :: "nat \<Rightarrow> int"
  clock_reads :: nat

text \<open>
  Modelled from the spec: \<open>pseudo::time_now()\<close> (rdb_protocol/pseudo_time.hpp) is not
  among the sources. It reads the wall clock and returns the time as a datum (an
  initialised one).
\<close>

definition time_now :: "term_storage_t \<Rightarrow> datum_t \<times> term_storage_t" where
  "time_now st =
     (R_OBJECT [(''$reql_type$'', R_STR ''TIME''), (''epoch_time'', R_NUM (clock st (clock_reads st)))],
      st\<lparr>clock_reads := Suc (clock_reads st)\<rparr>)"

text \<open>\<open>term_storage_t::get_time\<close>, lines 307 to 312.\<close>

definition get_time :: "term_storage_t \<Rightarrow> datum_t \<times> term_storage_t" where
  "get_time st =
     (if \<not> has (start_time st) then
        (case time_now st of (now, st1) \<Rightarrow> (now, st1\<lparr>start_time := now\<rparr>))
      else (start_time st, st))"

section \<open>Parsing a JSON term\<close>

text \<open>
  \<open>term_storage_t::parse_internal\<close> (lines 334 to 375), \<open>add_args\<close> (lines 377 to 389)
  and \<open>add_optargs\<close> (lines 391 to 406). \<open>bt_reg\<close> says whether the pointer to the
  backtrace registry is non-null (the registry is then the storage's own, as in
  \<open>add_root_term\<close>). The result is the term created and the state of the storage, or
  the exception that leaves the call. The two loops are \<open>add_args_loop\<close> (with the index
  \<open>i\<close>) and \<open>add_optargs_loop\<close>.
\<close>

lemma size_elem_less: "IsArray v \<Longrightarrow> size (elem v i) < size v"
proof (cases v)
  case (JArray xs)
  show ?thesis
  proof (cases "i < length xs")
    case True
    then have "xs ! i \<in> set xs" by simp
    then have "size (xs ! i) \<le> size_list size xs" by (rule size_list_estimation') simp
    with JArray True show ?thesis by simp
  next
    case False
    with JArray show ?thesis by simp
  qed
qed (simp_all add: IsArray_def split: if_splits)

lemma size_elem_less2: "IsArray v \<Longrightarrow> 2 * size (elem v i) < Suc (2 * size v)"
  using size_elem_less [of v i] by simp

lemma size_members_le:
  "size_list (size_prod (\<lambda>_. 0) size) (members v) \<le> size v"
  by (cases v) auto

lemma size_elems_le: "size_list size (elems v) \<le> size v"
  by (cases v) auto

function parse_internal ::
    "to_datum_t \<Rightarrow> json \<Rightarrow> bool \<Rightarrow> backtrace_id_t \<Rightarrow> term_storage_t
       \<Rightarrow> error + (raw_term_t \<times> term_storage_t)"
  and add_args ::
    "to_datum_t \<Rightarrow> json \<Rightarrow> bool \<Rightarrow> backtrace_id_t \<Rightarrow> term_storage_t
       \<Rightarrow> error + (raw_term_t list \<times> term_storage_t)"
  and add_args_loop ::
    "to_datum_t \<Rightarrow> json list \<Rightarrow> nat \<Rightarrow> bool \<Rightarrow> backtrace_id_t \<Rightarrow> term_storage_t
       \<Rightarrow> error + (raw_term_t list \<times> term_storage_t)"
  and add_optargs ::
    "to_datum_t \<Rightarrow> json \<Rightarrow> bool \<Rightarrow> backtrace_id_t \<Rightarrow> term_storage_t
       \<Rightarrow> error + (raw_term_t list \<times> term_storage_t)"
  and add_optargs_loop ::
    "to_datum_t \<Rightarrow> (string \<times> json) list \<Rightarrow> bool \<Rightarrow> backtrace_id_t \<Rightarrow> term_storage_t
       \<Rightarrow> error + (raw_term_t list \<times> term_storage_t)"
where
  "parse_internal to_datum v bt_reg bt_id st =
     (if IsArray v then
        (case check_term_size v bt_id of
           Inl e \<Rightarrow> Inl e
         | Inr _ \<Rightarrow>
        (case check_type (elem v 0) kNumberType bt_id of
           Inl e \<Rightarrow> Inl e
         | Inr _ \<Rightarrow>
        (let res = new_term_value (GetInt (elem v 0)) bt_id in
         (case
            (if type res = DATUM then
               (if Size v \<noteq> 2 then Inl (exc_t GENERIC bt_id)
                else (case to_datum (elem v 1) of
                        Inl e \<Rightarrow> Inl e
                      | Inr d \<Rightarrow> Inr (set_datum d res, st)))
             else if Size v = 2 then
               (case add_args to_datum (elem v 1) bt_reg bt_id st of
                  Inl e \<Rightarrow> Inl e
                | Inr (ts, st1) \<Rightarrow> Inr (set_args (args_list res @ ts) res, st1))
             else if Size v = 3 then
               (case add_args to_datum (elem v 1) bt_reg bt_id st of
                  Inl e \<Rightarrow> Inl e
                | Inr (ts, st1) \<Rightarrow>
                    (case add_optargs to_datum (elem v 2) bt_reg bt_id st1 of
                       Inl e \<Rightarrow> Inl e
                     | Inr (os, st2) \<Rightarrow>
                         Inr (set_optargs (optargs_list res @ os)
                                (set_args (args_list res @ ts) res), st2)))
             else Inr (res, st))
          of
            Inl e \<Rightarrow> Inl e
          | Inr (res1, st1) \<Rightarrow>
              if type res1 = NOW \<and> num_args res1 = Inr 0 \<and> num_optargs res1 = Inr 0 then
                (case get_time st1 of (now, st2) \<Rightarrow> Inr (set_datum now (set_type DATUM res1), st2))
              else Inr (res1, st1)))))
      else if IsObject v then
        (let res = new_term_value MAKE_OBJ bt_id in
         (case add_optargs to_datum v bt_reg bt_id st of
            Inl e \<Rightarrow> Inl e
          | Inr (os, st1) \<Rightarrow> Inr (set_optargs (optargs_list res @ os) res, st1)))
      else
        (let res = new_term_value DATUM bt_id in
         (case to_datum v of
            Inl e \<Rightarrow> Inl e
          | Inr d \<Rightarrow> Inr (set_datum d res, st))))"
| "add_args to_datum a bt_reg bt_id st =
     (case check_type a kArrayType bt_id of
        Inl e \<Rightarrow> Inl e
      | Inr _ \<Rightarrow> add_args_loop to_datum (elems a) 0 bt_reg bt_id st)"
| "add_args_loop to_datum [] i bt_reg bt_id st = Inr ([], st)"
| "add_args_loop to_datum (x # xs) i bt_reg bt_id st =
     (case (if \<not> bt_reg then (empty_bt, st)
            else (case new_frame bt_id (R_NUM (int i)) (backtrace_registry st) of
                    (b, frames) \<Rightarrow> (b, st\<lparr>backtrace_registry := frames\<rparr>)))
      of (child_bt, st1) \<Rightarrow>
        (case parse_internal to_datum x bt_reg child_bt st1 of
           Inl e \<Rightarrow> Inl e
         | Inr (t, st2) \<Rightarrow>
             (case add_args_loop to_datum xs (Suc i) bt_reg bt_id st2 of
                Inl e \<Rightarrow> Inl e
              | Inr (ts, st3) \<Rightarrow> Inr (t # ts, st3))))"
| "add_optargs to_datum a bt_reg bt_id st =
     (case check_type a kObjectType bt_id of
        Inl e \<Rightarrow> Inl e
      | Inr _ \<Rightarrow> add_optargs_loop to_datum (members a) bt_reg bt_id st)"
| "add_optargs_loop to_datum [] bt_reg bt_id st = Inr ([], st)"
| "add_optargs_loop to_datum ((name, x) # ms) bt_reg bt_id st =
     (case (if \<not> bt_reg then (empty_bt, st)
            else (case new_frame bt_id (R_STR name) (backtrace_registry st) of
                    (b, frames) \<Rightarrow> (b, st\<lparr>backtrace_registry := frames\<rparr>)))
      of (child_bt, st1) \<Rightarrow>
        (case parse_internal to_datum x bt_reg child_bt st1 of
           Inl e \<Rightarrow> Inl e
         | Inr (t, st2) \<Rightarrow>
             (case add_optargs_loop to_datum ms bt_reg bt_id st2 of
                Inl e \<Rightarrow> Inl e
              | Inr (ts, st3) \<Rightarrow> Inr (set_optarg_name name t # ts, st3))))"
  by pat_completeness auto
termination
  by (relation "measure (\<lambda>x. case x of
        Inl (Inl (_, v, _)) \<Rightarrow> 2 * size v + 2
      | Inl (Inr (_, a, _)) \<Rightarrow> 2 * size a + 2
      | Inr (Inl (_, xs, _)) \<Rightarrow> 2 * size_list size xs + 1
      | Inr (Inr (Inl (_, a, _))) \<Rightarrow> 2 * size a + 1
      | Inr (Inr (Inr (_, ms, _))) \<Rightarrow> 2 * size_list (size_prod (\<lambda>_. 0) size) ms)")
    (auto simp: size_elem_less size_elem_less2 le_imp_less_Suc size_elems_le size_members_le)

declare parse_internal.simps [simp del] add_args.simps [simp del] add_optargs.simps [simp del]

section \<open>The query envelope\<close>





section \<open>Global optargs\<close>

text \<open>
  The code of the mini-builder (rdb_protocol/minidriver.hpp) is not among the sources:
  its three operations that \<open>add_global_optargs\<close> calls, \<open>r.expr\<close>, \<open>r.fun\<close> and \<open>r.db\<close>,
  are parameters. Each gives the term it builds, or the error it raises.
\<close>

record minidriver_t =
  r_expr :: "raw_term_t \<Rightarrow> error + raw_term_t"
  r_fun :: "raw_term_t \<Rightarrow> error + raw_term_t"
  r_db :: "string \<Rightarrow> error + raw_term_t"

text \<open>\<open>global_optarg_list.tail()->optarg_name = key\<close>.\<close>

definition set_tail_optarg_name :: "string \<Rightarrow> raw_term_t list \<Rightarrow> raw_term_t list" where
  "set_tail_optarg_name key ts =
     (if ts = [] then ts else butlast ts @ [set_optarg_name key (last ts)])"

text \<open>
  \<open>term_storage_t::add_global_optargs\<close>, lines 280 to 305. The loop over the members
  is \<open>add_global_optargs_loop\<close>; it carries \<open>has_db_optarg\<close>.
\<close>

fun add_global_optargs_loop ::
  "to_datum_t \<Rightarrow> minidriver_t \<Rightarrow> (string \<times> json) list \<Rightarrow> bool \<Rightarrow> term_storage_t
     \<Rightarrow> error + (bool \<times> term_storage_t)" where
  "add_global_optargs_loop to_datum r [] has_db_optarg st = Inr (has_db_optarg, st)"
| "add_global_optargs_loop to_datum r ((key, v) # ms) has_db_optarg st =
     (let has_db_optarg1 = (if key = ''db'' then True else has_db_optarg)
      in case parse_internal to_datum v False empty_bt st of
           Inl e \<Rightarrow> Inl e
         | Inr (term, st1) \<Rightarrow>
             (case r_expr r term of
                Inl e \<Rightarrow> Inl e
              | Inr expr_term \<Rightarrow>
                  (case r_fun r expr_term of
                     Inl e \<Rightarrow> Inl e
                   | Inr func_term \<Rightarrow>
                       add_global_optargs_loop to_datum r ms has_db_optarg1
                         (st1\<lparr>global_optarg_list :=
                                set_tail_optarg_name key (global_optarg_list st1 @ [func_term])\<rparr>))))"

definition add_global_optargs ::
  "to_datum_t \<Rightarrow> minidriver_t \<Rightarrow> json \<Rightarrow> term_storage_t \<Rightarrow> error + term_storage_t" where
  "add_global_optargs to_datum r optargs_json st =
     (case check_type optargs_json kObjectType empty_bt of
        Inl e \<Rightarrow> Inl e
      | Inr _ \<Rightarrow>
          (case add_global_optargs_loop to_datum r (members optargs_json) False st of
             Inl e \<Rightarrow> Inl e
           | Inr (has_db_optarg, st1) \<Rightarrow>
               if \<not> has_db_optarg then
                 (case r_db r ''test'' of
                    Inl e \<Rightarrow> Inl e
                  | Inr db_term \<Rightarrow>
                      (case r_fun r db_term of
                         Inl e \<Rightarrow> Inl e
                       | Inr func_term \<Rightarrow>
                           Inr (st1\<lparr>global_optarg_list :=
                                  set_tail_optarg_name ''db'' (global_optarg_list st1 @ [func_term])\<rparr>)))
               else Inr st1))"

section \<open>The latest-version codec of term trees\<close>

text \<open>
  Modelled from the spec: the primitive codecs \<open>serialize<W>\<close> and \<open>deserialize<W>\<close>
  for \<open>int32_t\<close>, \<open>backtrace_id_t\<close>, \<open>datum_t\<close>, \<open>size_t\<close> and \<open>std::string\<close>
  (containers/archive) are not among the sources. The spec lists what the latest
  encoding writes for a node; a stream is kept as the sequence of the primitive values
  written, and reading a primitive takes the first value when it is of that kind. A
  read that fails gives a bad \<open>archive_result_t\<close> (the \<open>Inl\<close> of a result) and
  leaves the stream where it was.
\<close>

datatype wire =
    W_int32 int
  | W_backtrace_id backtrace_id_t
  | W_datum datum_t
  | W_size nat
  | W_string string

type_synonym stream_t = "wire list"

datatype archive_result_t = SUCCESS | SOCK_ERROR | SOCK_EOF | RANGE_ERROR

fun deserialize_int32 :: "stream_t \<Rightarrow> archive_result_t + (int \<times> stream_t)" where
  "deserialize_int32 [] = Inl SOCK_EOF"
| "deserialize_int32 (W_int32 n # s) = Inr (n, s)"
| "deserialize_int32 (w # s) = Inl RANGE_ERROR"

fun deserialize_backtrace_id :: "stream_t \<Rightarrow> archive_result_t + (backtrace_id_t \<times> stream_t)" where
  "deserialize_backtrace_id [] = Inl SOCK_EOF"
| "deserialize_backtrace_id (W_backtrace_id b # s) = Inr (b, s)"
| "deserialize_backtrace_id (w # s) = Inl RANGE_ERROR"

fun deserialize_datum :: "stream_t \<Rightarrow> archive_result_t + (datum_t \<times> stream_t)" where
  "deserialize_datum [] = Inl SOCK_EOF"
| "deserialize_datum (W_datum d # s) = Inr (d, s)"
| "deserialize_datum (w # s) = Inl RANGE_ERROR"

fun deserialize_size :: "stream_t \<Rightarrow> archive_result_t + (nat \<times> stream_t)" where
  "deserialize_size [] = Inl SOCK_EOF"
| "deserialize_size (W_size n # s) = Inr (n, s)"
| "deserialize_size (w # s) = Inl RANGE_ERROR"

fun deserialize_string :: "stream_t \<Rightarrow> archive_result_t + (string \<times> stream_t)" where
  "deserialize_string [] = Inl SOCK_EOF"
| "deserialize_string (W_string n # s) = Inr (n, s)"
| "deserialize_string (w # s) = Inl RANGE_ERROR"

text \<open>
  \<open>arg_iterator_t::next\<close> (lines 171 to 180) on a list item: the item, or the target
  of a \<open>REFERENCE\<close> item (a null target ends the caller's loop like the end of the
  list does).
\<close>

definition next_item :: "raw_term_t \<Rightarrow> raw_term_t option" where
  "next_item last_item = (if type last_item = REFERENCE then src last_item else Some last_item)"

lemma size_next_item: "next_item item = Some t \<Longrightarrow> size t \<le> size item"
  by (cases item) (auto simp: next_item_def split: if_splits)

lemma size_args_list: "size_list size (args_list t) < size t"
  by (cases t) simp

lemma size_optargs_list: "size_list size (optargs_list t) < size t"
  by (cases t) simp

lemma size_src: "src t = Some s \<Longrightarrow> size s < size t"
  by (cases t) simp

lemma size_args_less: "args t = Inr ts \<Longrightarrow> size_list size ts < size t"
  using size_args_list [of t] size_args_list [of "the (src t)"] size_src [of t]
  by (auto simp: args_def split: if_splits option.splits)

lemma size_optargs_less: "optargs t = Inr ts \<Longrightarrow> size_list size ts < size t"
  using size_optargs_list [of t] size_optargs_list [of "the (src t)"] size_src [of t]
  by (auto simp: optargs_def split: if_splits option.splits)

text \<open>
  \<open>serialize_term_tree\<close>, lines 504 to 532: what the call appends to the write
  message, or the error that ends it. The two \<open>while\<close> loops are \<open>serialize_args\<close> and
  \<open>serialize_optargs\<close>; each takes the items not yet visited and the counter, and
  returns the counter with what it wrote.
\<close>

function serialize_term_tree :: "raw_term_t \<Rightarrow> error + stream_t"
  and serialize_args :: "raw_term_t list \<Rightarrow> nat \<Rightarrow> error + (stream_t \<times> nat)"
  and serialize_optargs :: "raw_term_t list \<Rightarrow> nat \<Rightarrow> error + (stream_t \<times> nat)"
where
  "serialize_term_tree t =
     (let wm = [W_int32 (type t), W_backtrace_id (bt t)]
      in if type t = DATUM then Inr (wm @ [W_datum (datum t)])
         else
           (case num_args t of
              Inl e \<Rightarrow> Inl e
            | Inr n \<Rightarrow>
           (case args t of
              Inl e \<Rightarrow> Inl e
            | Inr arg_items \<Rightarrow>
           (case serialize_args arg_items n of
              Inl e \<Rightarrow> Inl e
            | Inr (wm1, n1) \<Rightarrow>
           (case num_optargs t of
              Inl e \<Rightarrow> Inl e
            | Inr m \<Rightarrow>
           (case optargs t of
              Inl e \<Rightarrow> Inl e
            | Inr optarg_items \<Rightarrow>
           (case serialize_optargs optarg_items m of
              Inl e \<Rightarrow> Inl e
            | Inr (wm2, m1) \<Rightarrow>
                if n1 \<noteq> 0 then Inl r_sanity_check_failed
                else if m1 \<noteq> 0 then Inl r_sanity_check_failed
                else Inr (wm @ [W_size n] @ wm1 @ [W_size m] @ wm2))))))))"
| "serialize_args [] n = Inr ([], n)"
| "serialize_args (item # items) n =
     (case next_item item of
        None \<Rightarrow> Inr ([], n)
      | Some t \<Rightarrow>
          (case serialize_term_tree t of
             Inl e \<Rightarrow> Inl e
           | Inr wm1 \<Rightarrow>
               (case serialize_args items (n - 1) of
                  Inl e \<Rightarrow> Inl e
                | Inr (wm2, n1) \<Rightarrow> Inr (wm1 @ wm2, n1))))"
| "serialize_optargs [] m = Inr ([], m)"
| "serialize_optargs (item # items) m =
     (case next_item item of
        None \<Rightarrow> Inr ([], m)
      | Some t \<Rightarrow>
          (case serialize_term_tree t of
             Inl e \<Rightarrow> Inl e
           | Inr wm1 \<Rightarrow>
               (case serialize_optargs items (m - 1) of
                  Inl e \<Rightarrow> Inl e
                | Inr (wm2, m1) \<Rightarrow> Inr (W_string (optarg_name item) # wm1 @ wm2, m1))))"
  by pat_completeness auto
termination
  by (relation "measure (\<lambda>x. case x of
        Inl t \<Rightarrow> 2 * size t + 1
      | Inr (Inl (ts, _)) \<Rightarrow> 2 * size_list size ts
      | Inr (Inr (ts, _)) \<Rightarrow> 2 * size_list size ts)")
    (auto dest!: size_next_item size_args_less size_optargs_less)

declare serialize_term_tree.simps [simp del]

text \<open>
  \<open>deserialize_term_tree<cluster_version_t::v2_1_is_latest>\<close>, lines 461 to 502. The
  term created is the result together with the rest of the stream; on a bad result the
  value left in \<open>*term_out\<close> is not part of the result. The result of reading the datum
  (line 477) is not looked at: when that read fails the term keeps its default datum
  and the function returns the result of the read before. The two \<open>for\<close> loops are
  \<open>deserialize_args\<close> and \<open>deserialize_optargs\<close>, with the index \<open>i\<close>. A read takes at
  least one value off the stream, which is why the recursion ends.
\<close>

lemma deserialize_int32_length: "deserialize_int32 s = Inr (n, s') \<Longrightarrow> length s' < length s"
  by (cases s rule: deserialize_int32.cases) auto

lemma deserialize_backtrace_id_length:
  "deserialize_backtrace_id s = Inr (n, s') \<Longrightarrow> length s' < length s"
  by (cases s rule: deserialize_backtrace_id.cases) auto

lemma deserialize_datum_length: "deserialize_datum s = Inr (n, s') \<Longrightarrow> length s' < length s"
  by (cases s rule: deserialize_datum.cases) auto

lemma deserialize_size_length: "deserialize_size s = Inr (n, s') \<Longrightarrow> length s' < length s"
  by (cases s rule: deserialize_size.cases) auto

lemma deserialize_string_length: "deserialize_string s = Inr (n, s') \<Longrightarrow> length s' < length s"
  by (cases s rule: deserialize_string.cases) auto

function deserialize_term_tree :: "stream_t \<Rightarrow> archive_result_t + (raw_term_t \<times> stream_t)"
  and deserialize_args ::
    "nat \<Rightarrow> nat \<Rightarrow> raw_term_t \<Rightarrow> stream_t \<Rightarrow> archive_result_t + (raw_term_t \<times> stream_t)"
  and deserialize_optargs ::
    "nat \<Rightarrow> nat \<Rightarrow> raw_term_t \<Rightarrow> stream_t \<Rightarrow> archive_result_t + (raw_term_t \<times> stream_t)"
where
  "deserialize_term_tree s =
     (case deserialize_int32 s of
        Inl res \<Rightarrow> Inl res
      | Inr (ty, s1) \<Rightarrow>
     (case deserialize_backtrace_id s1 of
        Inl res \<Rightarrow> Inl res
      | Inr (bt_id, s2) \<Rightarrow>
     (let term = new_term_value ty bt_id
      in if type term = DATUM then
           (case deserialize_datum s2 of
              Inl res \<Rightarrow> Inr (term, s2)
            | Inr (d, s3) \<Rightarrow> Inr (set_datum d term, s3))
         else
           (case deserialize_size s2 of
              Inl res \<Rightarrow> Inl res
            | Inr (n_args, s3) \<Rightarrow>
           (case deserialize_args 0 n_args term s3 of
              Inl res \<Rightarrow> Inl res
            | Inr (term1, s4) \<Rightarrow>
           (case deserialize_size s4 of
              Inl res \<Rightarrow> Inl res
            | Inr (n_optargs, s5) \<Rightarrow> deserialize_optargs 0 n_optargs term1 s5))))))"
| "deserialize_args i n_args term s =
     (if i < n_args then
        (case deserialize_term_tree s of
           Inl res \<Rightarrow> Inl res
         | Inr (term_out, s1) \<Rightarrow>
             deserialize_args (Suc i) n_args (set_args (args_list term @ [term_out]) term) s1)
      else Inr (term, s))"
| "deserialize_optargs i n_optargs term s =
     (if i < n_optargs then
        (case deserialize_string s of
           Inl res \<Rightarrow> Inl res
         | Inr (name, s1) \<Rightarrow>
             (case deserialize_term_tree s1 of
                Inl res \<Rightarrow> Inl res
              | Inr (term_out, s2) \<Rightarrow>
                  deserialize_optargs (Suc i) n_optargs
                    (set_optargs (optargs_list term @ [set_optarg_name name term_out]) term) s2))
      else Inr (term, s))"
  by pat_completeness auto

lemma deserialize_dom_length:
  shows "deserialize_term_tree_deserialize_args_deserialize_optargs_dom (Inl s) \<Longrightarrow>
     \<forall>t s'. deserialize_term_tree s = Inr (t, s') \<longrightarrow> length s' < length s"
  and "deserialize_term_tree_deserialize_args_deserialize_optargs_dom (Inr (Inl (i, n, term, s))) \<Longrightarrow>
     \<forall>t s'. deserialize_args i n term s = Inr (t, s') \<longrightarrow> length s' \<le> length s"
  and "deserialize_term_tree_deserialize_args_deserialize_optargs_dom (Inr (Inr (i, n, term, s))) \<Longrightarrow>
     \<forall>t s'. deserialize_optargs i n term s = Inr (t, s') \<longrightarrow> length s' \<le> length s"
proof (induct rule: deserialize_term_tree_deserialize_args_deserialize_optargs.pinduct)
  case (1 s)
  show ?case
  proof (intro allI impI)
    fix t s'
    assume a: "deserialize_term_tree s = Inr (t, s')"
    from a obtain ty s1 where r1: "deserialize_int32 s = Inr (ty, s1)"
      by (auto simp: deserialize_term_tree.psimps [OF "1.hyps"(1)] Let_def split: sum.splits)
    from a r1 obtain bt_id s2 where r2: "deserialize_backtrace_id s1 = Inr (bt_id, s2)"
      by (auto simp: deserialize_term_tree.psimps [OF "1.hyps"(1)] Let_def split: sum.splits)
    have l2: "length s2 < length s"
      using deserialize_int32_length [OF r1] deserialize_backtrace_id_length [OF r2] by simp
    define tm where "tm = new_term_value ty bt_id"
    show "length s' < length s"
    proof (cases "type tm = DATUM")
      case True
      with a r1 r2 have "s' = s2 \<or> (\<exists>d. deserialize_datum s2 = Inr (d, s'))"
        by (auto simp: deserialize_term_tree.psimps [OF "1.hyps"(1)] Let_def tm_def split: sum.splits)
      with l2 show ?thesis by (auto dest: deserialize_datum_length)
    next
      case False
      with a r1 r2 obtain n_args s3 where r3: "deserialize_size s2 = Inr (n_args, s3)"
        by (auto simp: deserialize_term_tree.psimps [OF "1.hyps"(1)] Let_def tm_def split: sum.splits)
      with a r1 r2 False obtain term1 s4 where r4: "deserialize_args 0 n_args tm s3 = Inr (term1, s4)"
        by (auto simp: deserialize_term_tree.psimps [OF "1.hyps"(1)] Let_def tm_def split: sum.splits)
      with a r1 r2 r3 False obtain n_optargs s5 where r5: "deserialize_size s4 = Inr (n_optargs, s5)"
        by (auto simp: deserialize_term_tree.psimps [OF "1.hyps"(1)] Let_def tm_def split: sum.splits)
      with a r1 r2 r3 r4 False have r6: "deserialize_optargs 0 n_optargs term1 s5 = Inr (t, s')"
        by (auto simp: deserialize_term_tree.psimps [OF "1.hyps"(1)] Let_def tm_def split: sum.splits)
      have "length s4 \<le> length s3"
        using "1.hyps"(2) [OF r1 refl r2 refl tm_def False r3 refl] r4 by blast
      moreover have "length s' \<le> length s5"
        using "1.hyps"(3) [OF r1 refl r2 refl tm_def False r3 refl r4 refl r5 refl] r6 by blast
      ultimately show ?thesis
        using l2 deserialize_size_length [OF r3] deserialize_size_length [OF r5] by simp
    qed
  qed
next
  case (2 i n_args tm s)
  show ?case
  proof (intro allI impI)
    fix t s'
    assume a: "deserialize_args i n_args tm s = Inr (t, s')"
    show "length s' \<le> length s"
    proof (cases "i < n_args")
      case False
      with a show ?thesis by (simp add: deserialize_args.psimps [OF "2.hyps"(1)])
    next
      case True
      with a obtain term_out s1 where r1: "deserialize_term_tree s = Inr (term_out, s1)"
        by (auto simp: deserialize_args.psimps [OF "2.hyps"(1)] split: sum.splits)
      with a True have r2: "deserialize_args (Suc i) n_args
          (set_args (args_list tm @ [term_out]) tm) s1 = Inr (t, s')"
        by (auto simp: deserialize_args.psimps [OF "2.hyps"(1)] split: sum.splits)
      have "length s1 < length s" using "2.hyps"(2) [OF True] r1 by blast
      moreover have "length s' \<le> length s1"
        using "2.hyps"(3) [OF True r1 refl] r2 by blast
      ultimately show ?thesis by simp
    qed
  qed
next
  case (3 i n_optargs tm s)
  show ?case
  proof (intro allI impI)
    fix t s'
    assume a: "deserialize_optargs i n_optargs tm s = Inr (t, s')"
    show "length s' \<le> length s"
    proof (cases "i < n_optargs")
      case False
      with a show ?thesis by (simp add: deserialize_optargs.psimps [OF "3.hyps"(1)])
    next
      case True
      with a obtain name s1 where r0: "deserialize_string s = Inr (name, s1)"
        by (auto simp: deserialize_optargs.psimps [OF "3.hyps"(1)] split: sum.splits)
      with a True obtain term_out s2 where r1: "deserialize_term_tree s1 = Inr (term_out, s2)"
        by (auto simp: deserialize_optargs.psimps [OF "3.hyps"(1)] split: sum.splits)
      with a True r0 have r2: "deserialize_optargs (Suc i) n_optargs
          (set_optargs (optargs_list tm @ [set_optarg_name name term_out]) tm) s2 = Inr (t, s')"
        by (auto simp: deserialize_optargs.psimps [OF "3.hyps"(1)] split: sum.splits)
      have "length s2 < length s1" using "3.hyps"(2) [OF True r0 refl] r1 by blast
      moreover have "length s' \<le> length s2"
        using "3.hyps"(3) [OF True r0 refl r1 refl] r2 by blast
      ultimately show ?thesis using deserialize_string_length [OF r0] by simp
    qed
  qed
qed

termination deserialize_term_tree
  apply (relation "measure (\<lambda>x. case x of
        Inl s \<Rightarrow> 2 * length s
      | Inr (Inl (_, _, _, s)) \<Rightarrow> 2 * length s + 1
      | Inr (Inr (_, _, _, s)) \<Rightarrow> 2 * length s + 1)")
        apply (auto dest!: deserialize_int32_length deserialize_backtrace_id_length 
           deserialize_size_length deserialize_string_length dest: deserialize_dom_length(1) deserialize_dom_length(2))
  done

declare deserialize_term_tree.simps [simp del] deserialize_args.simps [simp del]
  deserialize_optargs.simps [simp del]

section \<open>The arena of a term storage\<close>

text \<open>
  \<open>term_storage_t::terms\<close> with its pointers: a term of the arena is a cell, a pointer
  to a term is the index of its cell (the arena only grows, and a term never moves),
  \<open>nullptr\<close> is \<open>None\<close>. The intrusive lists of a cell hold pointers.
\<close>

record raw_term_cell =
  cell_type :: TermType
  cell_bt :: backtrace_id_t
  cell_optarg_name :: string
  cell_datum :: datum_t
  cell_src :: "nat option"
  cell_args :: "nat list"
  cell_optargs :: "nat list"

type_synonym arena = "raw_term_cell list"

text \<open>The default-constructed \<open>raw_term_t\<close> that \<open>terms.push_back()\<close> appends.\<close>

definition default_cell :: raw_term_cell where
  "default_cell =
     \<lparr>cell_type = 0, cell_bt = empty_bt, cell_optarg_name = [], cell_datum = UNINITIALIZED,
      cell_src = None, cell_args = [], cell_optargs = []\<rparr>"

text \<open>\<open>term_storage_t::new_term\<close>, lines 314 to 319: the pointer returned and the arena.\<close>

definition new_term :: "TermType \<Rightarrow> backtrace_id_t \<Rightarrow> arena \<Rightarrow> nat \<times> arena" where
  "new_term ty bt_id terms =
     (length terms, terms @ [default_cell\<lparr>cell_type := ty, cell_bt := bt_id\<rparr>])"

text \<open>
  \<open>term_storage_t::new_ref\<close>, lines 321 to 332. Reading through a pointer that is null
  (or not a term of the arena) ends the call.
\<close>

definition new_ref :: "nat \<Rightarrow> arena \<Rightarrow> error + (nat \<times> arena)" where
  "new_ref src_ptr terms =
     (if \<not> src_ptr < length terms then Inl null_dereference
      else
        (let res = default_cell\<lparr>cell_type := REFERENCE, cell_bt := cell_bt (terms ! src_ptr)\<rparr>
         in if cell_type (terms ! src_ptr) = REFERENCE then
              (case cell_src (terms ! src_ptr) of
                 None \<Rightarrow> Inl null_dereference
               | Some p \<Rightarrow>
                   if \<not> p < length terms then Inl null_dereference
                   else if \<not> cell_type (terms ! p) \<noteq> REFERENCE then Inl guarantee_failed
                   else Inr (length terms, terms @ [res\<lparr>cell_src := Some p\<rparr>]))
            else Inr (length terms, terms @ [res\<lparr>cell_src := Some src_ptr\<rparr>])))"

text \<open>
  The other writes of query.cc to a term, each through a pointer \<open>p\<close> to it: the
  assignment to \<open>mutable_datum()\<close>, \<open>push_back\<close> on \<open>mutable_args()\<close> and on
  \<open>mutable_optargs()\<close>, the assignment to \<open>optarg_name\<close>, and the rewriting of a nullary
  \<open>NOW\<close> to a \<open>DATUM\<close> (lines 360 to 363). These, \<open>new_term\<close> and \<open>new_ref\<close> are all
  the ways in which the parsers, the deserialisers and \<open>add_global_optargs\<close> change the
  arena.
\<close>

datatype storage_op =
    New_term TermType backtrace_id_t
  | New_ref nat
  | Assign_datum nat datum_t
  | Push_arg nat nat
  | Push_optarg nat nat
  | Assign_optarg_name nat string
  | Now_to_datum nat datum_t

definition write_cell :: "nat \<Rightarrow> (raw_term_cell \<Rightarrow> raw_term_cell) \<Rightarrow> arena \<Rightarrow> error + arena" where
  "write_cell p f terms =
     (if p < length terms then Inr (terms[p := f (terms ! p)]) else Inl null_dereference)"

fun apply_op :: "storage_op \<Rightarrow> arena \<Rightarrow> error + arena" where
  "apply_op (New_term ty bt_id) terms = Inr (snd (new_term ty bt_id terms))"
| "apply_op (New_ref src_ptr) terms =
     (case new_ref src_ptr terms of Inl e \<Rightarrow> Inl e | Inr (p, terms1) \<Rightarrow> Inr terms1)"
| "apply_op (Assign_datum p d) terms = write_cell p (\<lambda>c. c\<lparr>cell_datum := d\<rparr>) terms"
| "apply_op (Push_arg p q) terms = write_cell p (\<lambda>c. c\<lparr>cell_args := cell_args c @ [q]\<rparr>) terms"
| "apply_op (Push_optarg p q) terms =
     write_cell p (\<lambda>c. c\<lparr>cell_optargs := cell_optargs c @ [q]\<rparr>) terms"
| "apply_op (Assign_optarg_name p name) terms =
     write_cell p (\<lambda>c. c\<lparr>cell_optarg_name := name\<rparr>) terms"
| "apply_op (Now_to_datum p now) terms =
     write_cell p
       (\<lambda>c. if cell_type c = NOW \<and> cell_args c = [] \<and> cell_optargs c = []
             then c\<lparr>cell_type := DATUM, cell_datum := now\<rparr> else c) terms"

fun apply_ops :: "storage_op list \<Rightarrow> arena \<Rightarrow> error + arena" where
  "apply_ops [] terms = Inr terms"
| "apply_ops (x # xs) terms =
     (case apply_op x terms of Inl e \<Rightarrow> Inl e | Inr terms1 \<Rightarrow> apply_ops xs terms1)"

text \<open>No \<open>REFERENCE\<close> of the arena has a target that is a \<open>REFERENCE\<close>.\<close>

definition ref_target_ok :: "arena \<Rightarrow> raw_term_cell \<Rightarrow> bool" where
  "ref_target_ok terms c \<longleftrightarrow>
     (if cell_type c = REFERENCE then
        (case cell_src c of
           None \<Rightarrow> True
         | Some p \<Rightarrow> p < length terms \<and> cell_type (terms ! p) \<noteq> REFERENCE)
      else True)"

definition ref_inv :: "arena \<Rightarrow> bool" where
  "ref_inv terms \<longleftrightarrow> list_all (ref_target_ok terms) terms"

section \<open>Positions in a query, and the start time\<close>

text \<open>
  The JSON values that parse as a call of \<open>NOW\<close> without arguments and without
  optargs: \<open>[NOW]\<close>, \<open>[NOW, []]\<close> and \<open>[NOW, [], {}]\<close>.
\<close>

definition nullary_now :: "json \<Rightarrow> bool" where
  "nullary_now v \<longleftrightarrow>
     IsArray v \<and> (Size v = 1 \<or> Size v = 2 \<or> Size v = 3) \<and> elem v 0 = JNumber NOW
     \<and> (if Size v \<ge> 2 then elem v 1 = JArray [] else True)
     \<and> (if Size v = 3 then elem v 2 = JObject [] else True)"

text \<open>
  A position in a query: the path from the root, each step to the \<open>i\<close>-th argument or
  to the \<open>j\<close>-th optarg. \<open>json_at\<close> is the JSON value at a position of a JSON term
  (the second element of a \<open>DATUM\<close> array is data, not a term; the members of a bare
  object are its optargs), \<open>term_at\<close> the term at a position of a parsed term.
\<close>

datatype child_step = Arg nat | Optarg nat

fun json_at :: "json \<Rightarrow> child_step list \<Rightarrow> json option" where
  "json_at v [] = Some v"
| "json_at v (Arg i # p) =
     (if IsArray v \<and> Size v \<ge> 2 \<and> GetInt (elem v 0) \<noteq> DATUM \<and> i < Size (elem v 1)
      then json_at (elem (elem v 1) i) p else None)"
| "json_at v (Optarg j # p) =
     (if IsArray v \<and> Size v = 3 \<and> GetInt (elem v 0) \<noteq> DATUM \<and> j < length (members (elem v 2))
      then json_at (snd (members (elem v 2) ! j)) p
      else if IsObject v \<and> j < length (members v) then json_at (snd (members v ! j)) p
      else None)"

fun term_at :: "raw_term_t \<Rightarrow> child_step list \<Rightarrow> raw_term_t option" where
  "term_at t [] = Some t"
| "term_at t (Arg i # p) =
     (if i < length (args_list t) then term_at (args_list t ! i) p else None)"
| "term_at t (Optarg j # p) =
     (if j < length (optargs_list t) then term_at (optargs_list t ! j) p else None)"

text \<open>
  What a parse keeps of the storage: a start time that is cached, and the list of
  global optargs.
\<close>

definition stable :: "term_storage_t \<Rightarrow> term_storage_t \<Rightarrow> bool" where
  "stable s s' \<longleftrightarrow>
     (if has (start_time s) then start_time s' = start_time s else True)
     \<and> global_optarg_list s' = global_optarg_list s"

text \<open>The term of a call before the check for a nullary NOW, and that check.\<close>

definition now_rewrite ::
  "raw_term_t \<Rightarrow> term_storage_t \<Rightarrow> raw_term_t \<Rightarrow> term_storage_t \<Rightarrow> bool" where
  "now_rewrite res1 st1 t st' \<longleftrightarrow>
     (if type res1 = NOW \<and> args_list res1 = [] \<and> optargs_list res1 = []
      then (\<exists>now. get_time st1 = (now, st') \<and> t = Raw_term DATUM (bt res1) [] now None [] [])
      else t = res1 \<and> st' = st1)"

text \<open>Every nullary NOW of the JSON term is, in the parsed term, a DATUM with the start time.\<close>

definition now_folded :: "json \<Rightarrow> raw_term_t \<Rightarrow> term_storage_t \<Rightarrow> bool" where
  "now_folded v t s \<longleftrightarrow>
     (\<forall>p w. json_at v p = Some w \<and> nullary_now w \<longrightarrow>
        (\<exists>u. term_at t p = Some u \<and> type u = DATUM \<and> datum u = start_time s
              \<and> has (start_time s)))"

definition parse_ok :: "to_datum_t \<Rightarrow> json \<Rightarrow> bool" where
  "parse_ok to_datum v \<longleftrightarrow>
     (\<forall>bt_reg bt_id st t st'. parse_internal to_datum v bt_reg bt_id st = Inr (t, st') \<longrightarrow>
        stable st st' \<and> now_folded v t st')"

section \<open>Instances for the examples\<close>

text \<open>
  Modelled from the spec: an instance of \<open>to_datum\<close>. The spec calls \<open>to_datum\<close> the
  read-only adapter from JSON values to datums, and lists a malformed datum among the
  parse errors of kind \<open>GENERIC\<close>; it does not say which values are malformed. The
  instance takes the malformed values as a list, raises on them, and converts every
  other value structurally (\<open>datum_of_json\<close>).
\<close>

fun datum_of_json :: "json \<Rightarrow> datum_t"
  and datum_of_members :: "(string \<times> json) list \<Rightarrow> (string \<times> datum_t) list"
  and datum_of_elems :: "json list \<Rightarrow> datum_t list" where
  "datum_of_json JNull = R_NULL"
| "datum_of_json (JBool b) = R_BOOL b"
| "datum_of_json (JNumber n) = R_NUM n"
| "datum_of_json (JString s) = R_STR s"
| "datum_of_json (JArray xs) = R_ARRAY (datum_of_elems xs)"
| "datum_of_json (JObject ms) = R_OBJECT (datum_of_members ms)"
| "datum_of_members [] = []"
| "datum_of_members ((k, v) # ms) = (k, datum_of_json v) # datum_of_members ms"
| "datum_of_elems [] = []"
| "datum_of_elems (x # xs) = datum_of_json x # datum_of_elems xs"

definition sample_to_datum :: "json list \<Rightarrow> to_datum_t" where
  "sample_to_datum malformed v =
     (if v \<in> set malformed then Inl (exc_t GENERIC empty_bt) else Inr (datum_of_json v))"

text \<open>
  A builder, for the example of \<open>add_global_optargs\<close> below: \<open>expr\<close> makes a
  reference to its argument, \<open>fun\<close> a \<open>FUNC\<close> (69) of an empty \<open>MAKE_ARRAY\<close> (2) and
  the body, \<open>db\<close> a \<open>DB\<close> (14) of the name.
\<close>

definition sample_minidriver :: minidriver_t where
  "sample_minidriver =
     \<lparr>r_expr = (\<lambda>t. Inr (Raw_term REFERENCE (bt t) [] UNINITIALIZED (Some t) [] [])),
      r_fun = (\<lambda>body. Inr (Raw_term 69 0 [] UNINITIALIZED None
                 [Raw_term 2 0 [] UNINITIALIZED None [] [], body] [])),
      r_db = (\<lambda>name. Inr (Raw_term 14 0 [] UNINITIALIZED None
                 [Raw_term DATUM 0 [] (R_STR name) None [] []] []))\<rparr>"

section \<open>Term trees on the wire\<close>

text \<open>A term tree without REFERENCE nodes.\<close>

fun no_references :: "raw_term_t \<Rightarrow> bool" where
  "no_references (Raw_term ty bt_id name d s ts os) \<longleftrightarrow>
     ty \<noteq> REFERENCE \<and> list_all no_references ts \<and> list_all no_references os"

text \<open>
  Structural identity of two term trees, as the round trip is to keep it: the same
  term type and the same backtrace id at every position, the same datum at a \<open>DATUM\<close>,
  and at any other term the same number of arguments and of optargs, pairwise
  identical in order, each optarg under the same name.
\<close>

fun struct_eq :: "raw_term_t \<Rightarrow> raw_term_t \<Rightarrow> bool" where
  "struct_eq (Raw_term ty bt_id name d s ts os) t' \<longleftrightarrow>
     ty = type t' \<and> bt_id = bt t'
     \<and> (if ty = DATUM then d = datum t'
         else list_all2 struct_eq ts (args_list t')
              \<and> list_all2 (\<lambda>c c'. optarg_name c = optarg_name c' \<and> struct_eq c c') os (optargs_list t'))"

text \<open>What the latest codec keeps of a term tree without REFERENCE nodes.\<close>

fun on_wire :: "raw_term_t \<Rightarrow> raw_term_t" where
  "on_wire (Raw_term ty bt_id name d s ts os) =
     (if ty = DATUM then Raw_term ty bt_id [] d None [] []
      else Raw_term ty bt_id [] UNINITIALIZED None (map on_wire ts)
             (map (\<lambda>c. set_optarg_name (optarg_name c) (on_wire c)) os))"

text \<open>A term is written so that reading it back gives what the codec keeps of it.\<close>

definition round_trips :: "raw_term_t \<Rightarrow> bool" where
  "round_trips t \<longleftrightarrow>
     (\<exists>w. serialize_term_tree t = Inr w
        \<and> (\<forall>rest. deserialize_term_tree (w @ rest) = Inr (on_wire t, rest)))"

section \<open>Properties of the query-id allocator\<close>

lemma sorted_wrt_append_last:
  "sorted_wrt (<) xs \<Longrightarrow> (xs = [] \<or> last xs < (v::'a::linorder)) \<Longrightarrow> sorted_wrt (<) (xs @ [v])"
proof (induction xs)
  case Nil
  then show ?case by simp
next
  case (Cons a xs)
  show ?case
  proof (cases "xs = []")
    case True
    with Cons.prems show ?thesis by simp
  next
    case False
    with Cons.prems have l: "last xs < v" by simp
    from Cons.prems have s: "sorted_wrt (<) xs" and a: "\<forall>x\<in>set xs. a < x" by simp_all
    from False a have "a < last xs" by simp
    with l have "a < v" by simp
    with Cons.IH [OF s] False l a show ?thesis by (simp add: sorted_wrt_append)
  qed
qed

lemma query_id_ctor_inv:
  assumes "alloc_inv qc" and "query_id_ctor qc = Inr (v, qc')"
  shows "alloc_inv qc'"
proof -
  let ?xs = "outstanding_query_ids qc"
  from assms(2) have g1: "?xs = [] \<or> last ?xs < next_query_id qc"
    and g2: "oldest_outstanding_query_id qc \<le> next_query_id qc"
    and v: "v = next_query_id qc"
    and qc': "qc' = qc\<lparr>next_query_id := next_query_id qc + 1,
                         outstanding_query_ids := ?xs @ [next_query_id qc]\<rparr>"
    by (auto simp: query_id_ctor_def tail_def Let_def split: if_splits)
  from assms(1) have s: "sorted_wrt (<) ?xs" and w: "watermark_ok qc"
    by (simp_all add: alloc_inv_def)
  have "sorted_wrt (<) (?xs @ [next_query_id qc])"
    using s g1 by (rule sorted_wrt_append_last)
  moreover have "watermark_ok qc'"
    using w by (cases ?xs) (simp_all add: watermark_ok_def qc')
  ultimately show ?thesis by (simp add: alloc_inv_def qc')
qed

lemma sorted_wrt_remove1: "sorted_wrt P xs \<Longrightarrow> sorted_wrt P (remove1 x xs)"
  by (induction xs) (auto dest: notin_set_remove1)

lemma query_id_dtor_head:
  assumes "alloc_inv qc" and "outstanding_query_ids qc = h # t"
  shows "query_id_dtor h qc =
    Inr (qc\<lparr>outstanding_query_ids := t,
             oldest_outstanding_query_id := (case t of [] \<Rightarrow> next_query_id qc | h' # _ \<Rightarrow> h')\<rparr>)"
  using assms
  by (cases t) (auto simp: query_id_dtor_def alloc_inv_def watermark_ok_def head_def)

lemma query_id_dtor_inv:
  assumes "alloc_inv qc" and "query_id_dtor v qc = Inr qc'"
  shows "alloc_inv qc'"
proof (cases "v \<in> set (outstanding_query_ids qc)")
  case False
  with assms show ?thesis by (simp add: query_id_dtor_def)
next
  case True
  then obtain h t where ht: "outstanding_query_ids qc = h # t"
    by (cases "outstanding_query_ids qc") auto
  from assms(1) ht have s: "sorted_wrt (<) (h # t)" and w: "oldest_outstanding_query_id qc = h"
    by (simp_all add: alloc_inv_def watermark_ok_def)
  show ?thesis
  proof (cases "v = h")
    case True
    with assms(2) query_id_dtor_head [OF assms(1) ht]
    have "qc' = qc\<lparr>outstanding_query_ids := t,
             oldest_outstanding_query_id := (case t of [] \<Rightarrow> next_query_id qc | h' # _ \<Rightarrow> h')\<rparr>"
      by simp
    with s show ?thesis by (cases t) (simp_all add: alloc_inv_def watermark_ok_def)
  next
    case False
    with assms(2) \<open>v \<in> set (outstanding_query_ids qc)\<close> ht w
    have "qc' = qc\<lparr>outstanding_query_ids := h # remove1 v t\<rparr>"
      by (simp add: query_id_dtor_def)
    moreover have "sorted_wrt (<) (remove1 v (h # t))"
      using s by (rule sorted_wrt_remove1)
    ultimately show ?thesis using False w by (simp add: alloc_inv_def watermark_ok_def)
  qed
qed

lemma run_ops_inv:
  "alloc_inv qc0 \<Longrightarrow> run_ops ops qc0 = Inr (ids, qc) \<Longrightarrow> alloc_inv qc"
proof (induction ops qc0 arbitrary: ids rule: run_ops.induct)
  case (1 qc)
  then show ?case by simp
next
  case (2 ops qc)
  then show ?case
    by (auto split: sum.splits prod.splits dest: query_id_ctor_inv)
next
  case (3 v ops qc)
  then show ?case
    by (auto split: sum.splits dest: query_id_dtor_inv)
qed

text \<open>
  C1. After any sequence of constructions and destructions of handles that starts from
  an allocator in a state of \<open>alloc_inv\<close> and in which no \<open>guarantee\<close> fails, the
  watermark is the value at the head of the outstanding list, or \<open>next_query_id\<close>
  when the list is empty. Destroying the handle whose value is the watermark then
  succeeds, removes the head, and sets the watermark to the value of the new head, or
  to \<open>next_query_id\<close> when the list has become empty.
\<close>

theorem watermark_follows_head:
  assumes "alloc_inv qc0" and "run_ops ops qc0 = Inr (ids, qc)"
  shows "oldest_outstanding_query_id qc =
           (case outstanding_query_ids qc of [] \<Rightarrow> next_query_id qc | h # _ \<Rightarrow> h)
       \<and> (\<forall>h t. outstanding_query_ids qc = h # t \<longrightarrow>
             query_id_dtor (oldest_outstanding_query_id qc) qc =
               Inr (qc\<lparr>outstanding_query_ids := t,
                       oldest_outstanding_query_id :=
                         (case t of [] \<Rightarrow> next_query_id qc | h' # _ \<Rightarrow> h')\<rparr>))"
proof -
  have inv: "alloc_inv qc" using assms by (rule run_ops_inv)
  then have w: "watermark_ok qc" by (simp add: alloc_inv_def)
  show ?thesis
  proof (intro conjI allI impI)
    show "oldest_outstanding_query_id qc =
           (case outstanding_query_ids qc of [] \<Rightarrow> next_query_id qc | h # _ \<Rightarrow> h)"
      using w by (simp add: watermark_ok_def)
  next
    fix h t
    assume ht: "outstanding_query_ids qc = h # t"
    with w have "oldest_outstanding_query_id qc = h" by (simp add: watermark_ok_def)
    with query_id_dtor_head [OF inv ht]
    show "query_id_dtor (oldest_outstanding_query_id qc) qc =
               Inr (qc\<lparr>outstanding_query_ids := t,
                       oldest_outstanding_query_id :=
                         (case t of [] \<Rightarrow> next_query_id qc | h' # _ \<Rightarrow> h')\<rparr>)"
      by simp
  qed
qed

lemma run_ops_scenario:
  "run_ops [Acquire, Acquire, Acquire, Release 1]
     \<lparr>next_query_id = 0, oldest_outstanding_query_id = 0, outstanding_query_ids = []\<rparr>
   = Inr ([0, 1, 2],
       \<lparr>next_query_id = 3, oldest_outstanding_query_id = 0, outstanding_query_ids = [0, 2]\<rparr>)"
  by (simp add: query_id_ctor_def query_id_dtor_def tail_def head_def Let_def)

theorem watermark_follows_head_witness:
  "alloc_inv \<lparr>next_query_id = 0, oldest_outstanding_query_id = 0, outstanding_query_ids = []\<rparr>
   \<and> run_ops [Acquire, Acquire, Acquire, Release 1]
        \<lparr>next_query_id = 0, oldest_outstanding_query_id = 0, outstanding_query_ids = []\<rparr>
      = Inr ([0, 1, 2],
          \<lparr>next_query_id = 3, oldest_outstanding_query_id = 0, outstanding_query_ids = [0, 2]\<rparr>)
   \<and> query_id_dtor 0
        \<lparr>next_query_id = 3, oldest_outstanding_query_id = 0, outstanding_query_ids = [0, 2]\<rparr>
      = Inr \<lparr>next_query_id = 3, oldest_outstanding_query_id = 2, outstanding_query_ids = [2]\<rparr>"
proof -
  let ?start = "\<lparr>next_query_id = 0, oldest_outstanding_query_id = 0, outstanding_query_ids = []\<rparr>"
  let ?final = "\<lparr>next_query_id = 3, oldest_outstanding_query_id = 0, outstanding_query_ids = [0, 2]\<rparr>"
  have i: "alloc_inv ?start" by (simp add: alloc_inv_def watermark_ok_def)
  have r: "run_ops [Acquire, Acquire, Acquire, Release 1] ?start = Inr ([0, 1, 2], ?final)"
    by (rule run_ops_scenario)
  from watermark_follows_head [OF i r] i r show ?thesis by simp
qed

lemma unat_succ:
  "unat (n::uint64_t) + 1 < 2 ^ 64 \<Longrightarrow> unat (n + 1) = unat n + 1"
  by (simp add: unat_word_ariths)

lemma word_less_succ:
  "(x::uint64_t) < n \<Longrightarrow> unat n + 1 < 2 ^ 64 \<Longrightarrow> x < n + 1"
  by (simp add: word_less_nat_alt unat_succ)

lemma word_lt_succ:
  "unat (n::uint64_t) + 1 < 2 ^ 64 \<Longrightarrow> n < n + 1"
  by (simp add: word_less_nat_alt unat_succ)

lemma query_id_ctor_below:
  assumes "alloc_inv_below qc" and "unat (next_query_id qc) + 1 < 2 ^ 64"
  shows "\<exists>qc'. query_id_ctor qc = Inr (next_query_id qc, qc') \<and> alloc_inv_below qc'
           \<and> next_query_id qc' = next_query_id qc + 1"
proof -
  let ?xs = "outstanding_query_ids qc" and ?n = "next_query_id qc"
  from assms(1) have inv: "alloc_inv qc" and below: "list_all (\<lambda>v. v < ?n) ?xs"
    by (simp_all add: alloc_inv_below_def)
  have g1: "?xs = [] \<or> last ?xs < ?n"
    using below by (cases "?xs = []") (simp_all add: list_all_iff)
  have g2: "oldest_outstanding_query_id qc \<le> ?n"
    using inv below by (cases ?xs) (auto simp: alloc_inv_def watermark_ok_def)
  define qc' where "qc' = qc\<lparr>next_query_id := ?n + 1, outstanding_query_ids := ?xs @ [?n]\<rparr>"
  have c: "query_id_ctor qc = Inr (?n, qc')"
    using g1 g2 by (auto simp: query_id_ctor_def tail_def Let_def qc'_def)
  have "alloc_inv qc'" using inv c by (rule query_id_ctor_inv)
  moreover have "list_all (\<lambda>v. v < ?n + 1) (?xs @ [?n])"
    using below assms(2) by (auto simp: list_all_iff word_less_succ word_lt_succ)
  ultimately have "alloc_inv_below qc'" by (simp add: alloc_inv_below_def qc'_def)
  with c show ?thesis by (auto simp: qc'_def)
qed

lemma query_id_dtor_below:
  assumes "alloc_inv_below qc"
  shows "\<exists>qc'. query_id_dtor v qc = Inr qc' \<and> alloc_inv_below qc'
           \<and> next_query_id qc' = next_query_id qc"
proof -
  from assms have inv: "alloc_inv qc"
    and below: "list_all (\<lambda>v. v < next_query_id qc) (outstanding_query_ids qc)"
    by (simp_all add: alloc_inv_below_def)
  have ex: "\<exists>qc'. query_id_dtor v qc = Inr qc' \<and> next_query_id qc' = next_query_id qc
              \<and> outstanding_query_ids qc' = remove1 v (outstanding_query_ids qc)"
  proof (cases "outstanding_query_ids qc")
    case Nil
    then show ?thesis by (simp add: query_id_dtor_def)
  next
    case (Cons h t)
    show ?thesis
    proof (cases "v = h")
      case True
      with query_id_dtor_head [OF inv Cons] Cons show ?thesis by simp
    next
      case False
      with Cons inv show ?thesis
        by (auto simp: query_id_dtor_def alloc_inv_def watermark_ok_def remove1_idem)
    qed
  qed
  then obtain qc' where d: "query_id_dtor v qc = Inr qc'"
    and n: "next_query_id qc' = next_query_id qc"
    and l: "outstanding_query_ids qc' = remove1 v (outstanding_query_ids qc)" by blast
  have "alloc_inv qc'" using inv d by (rule query_id_dtor_inv)
  moreover have "list_all (\<lambda>v. v < next_query_id qc') (outstanding_query_ids qc')"
    using below n l by (auto simp: list_all_iff dest: notin_set_remove1)
  ultimately show ?thesis using d n by (simp add: alloc_inv_below_def)
qed

lemma run_ops_below:
  "alloc_inv_below qc0 \<Longrightarrow> unat (next_query_id qc0) + count_acquires ops < 2 ^ 64 \<Longrightarrow>
   \<exists>ids qc. run_ops ops qc0 = Inr (ids, qc) \<and> alloc_inv_below qc
     \<and> sorted_wrt (<) ids \<and> list_all (\<lambda>v. next_query_id qc0 \<le> v) ids"
proof (induction ops qc0 rule: run_ops.induct)
  case (1 qc)
  then show ?case by simp
next
  case (2 ops qc)
  from "2.prems" have b: "unat (next_query_id qc) + 1 < 2 ^ 64" by simp
  from query_id_ctor_below [OF "2.prems"(1) b] obtain qc1
    where c: "query_id_ctor qc = Inr (next_query_id qc, qc1)" and i: "alloc_inv_below qc1"
      and n: "next_query_id qc1 = next_query_id qc + 1" by blast
  from "2.prems"(2) b have "unat (next_query_id qc1) + count_acquires ops < 2 ^ 64"
    by (simp add: n unat_succ)
  from "2.IH" [OF c refl i this] obtain ids qc2
    where r: "run_ops ops qc1 = Inr (ids, qc2)" and i2: "alloc_inv_below qc2"
      and s: "sorted_wrt (<) ids" and g: "list_all (\<lambda>v. next_query_id qc1 \<le> v) ids" by blast
  have lt: "next_query_id qc < next_query_id qc + 1" using b by (rule word_lt_succ)
  from g have "\<forall>v\<in>set ids. next_query_id qc < v"
    using lt by (auto simp: list_all_iff n)
  with c r i2 s show ?case by (auto simp: list_all_iff intro: less_imp_le)
next
  case (3 v ops qc)
  from query_id_dtor_below [OF "3.prems"(1)] obtain qc1
    where d: "query_id_dtor v qc = Inr qc1" and i: "alloc_inv_below qc1"
      and n: "next_query_id qc1 = next_query_id qc" by blast
  from "3.IH" [OF d i] "3.prems"(2) n d show ?case by simp
qed

lemma query_id_ctor_value:
  "query_id_ctor qc = Inr (v, qc') \<Longrightarrow>
     v = next_query_id qc \<and> next_query_id qc' = next_query_id qc + 1"
  by (auto simp: query_id_ctor_def Let_def split: if_splits)

lemma query_id_dtor_next:
  "query_id_dtor v qc = Inr qc' \<Longrightarrow> next_query_id qc' = next_query_id qc"
  by (auto simp: query_id_dtor_def Let_def split: if_splits option.splits)

lemma run_ops_sorted:
  "run_ops ops qc0 = Inr (ids, qcf) \<Longrightarrow>
   unat (next_query_id qc0) + count_acquires ops < 2 ^ 64 \<Longrightarrow>
   sorted_wrt (<) ids \<and> list_all (\<lambda>v. next_query_id qc0 \<le> v) ids"
proof (induction ops qc0 arbitrary: ids rule: run_ops.induct)
  case (1 qc)
  then show ?case by simp
next
  case (2 ops qc)
  from "2.prems"(1) obtain v qc1 ids' where c: "query_id_ctor qc = Inr (v, qc1)"
    and r: "run_ops ops qc1 = Inr (ids', qcf)" and ids: "ids = v # ids'"
    by (auto split: sum.splits prod.splits)
  from query_id_ctor_value [OF c] have v: "v = next_query_id qc"
    and n: "next_query_id qc1 = next_query_id qc + 1" by simp_all
  from "2.prems"(2) have b: "unat (next_query_id qc) + 1 < 2 ^ 64" by simp
  with "2.prems"(2) have "unat (next_query_id qc1) + count_acquires ops < 2 ^ 64"
    by (simp add: n unat_succ)
  from "2.IH" [OF c refl r this]
  have s: "sorted_wrt (<) ids'" and g: "list_all (\<lambda>v. next_query_id qc1 \<le> v) ids'"
    by simp_all
  have lt: "next_query_id qc < next_query_id qc + 1" using b by (rule word_lt_succ)
  from g have "\<forall>w\<in>set ids'. next_query_id qc < w"
    using lt by (auto simp: list_all_iff n)
  with s show ?case by (auto simp: ids v list_all_iff intro: less_imp_le)
next
  case (3 v ops qc)
  from "3.prems"(1) obtain qc1 where d: "query_id_dtor v qc = Inr qc1"
    and r: "run_ops ops qc1 = Inr (ids, qcf)"
    by (auto split: sum.splits)
  from "3.IH" [OF d r] "3.prems"(2) query_id_dtor_next [OF d] show ?case by simp
qed

text \<open>
  C4. A handle that is constructed has a value strictly greater than the value at the
  tail of the outstanding list at that moment, and not less than the watermark (the
  constructor halts the process otherwise). In a session in which the 64-bit counter
  does not wrap around, the values of the handles constructed are strictly increasing
  in the order of construction; and when such a session starts from an allocator whose
  outstanding values are below the counter, no \<open>guarantee\<close> fails in it.
\<close>

theorem acquired_ids_increase:
  assumes "unat (next_query_id qc0) + count_acquires ops < 2 ^ 64"
  shows "(\<forall>ids qc. run_ops ops qc0 = Inr (ids, qc) \<longrightarrow> sorted_wrt (<) ids)
       \<and> (alloc_inv_below qc0 \<longrightarrow> (\<exists>ids qc. run_ops ops qc0 = Inr (ids, qc)))
       \<and> (\<forall>parent v parent'. query_id_ctor parent = Inr (v, parent') \<longrightarrow>
             (\<forall>l. tail (outstanding_query_ids parent) = Some l \<longrightarrow> l < v)
             \<and> oldest_outstanding_query_id parent \<le> v)"
proof (intro conjI)
  show "\<forall>ids qc. run_ops ops qc0 = Inr (ids, qc) \<longrightarrow> sorted_wrt (<) ids"
    using run_ops_sorted [OF _ assms] by blast
next
  show "alloc_inv_below qc0 \<longrightarrow> (\<exists>ids qc. run_ops ops qc0 = Inr (ids, qc))"
    using run_ops_below [OF _ assms] by blast
next
  show "\<forall>parent v parent'. query_id_ctor parent = Inr (v, parent') \<longrightarrow>
             (\<forall>l. tail (outstanding_query_ids parent) = Some l \<longrightarrow> l < v)
             \<and> oldest_outstanding_query_id parent \<le> v"
    by (auto simp: query_id_ctor_def Let_def split: if_splits option.splits)
qed

lemma run_ops_scenario2:
  "run_ops [Acquire, Acquire, Release 7, Acquire]
     \<lparr>next_query_id = 7, oldest_outstanding_query_id = 7, outstanding_query_ids = []\<rparr>
   = Inr ([7, 8, 9],
       \<lparr>next_query_id = 10, oldest_outstanding_query_id = 8, outstanding_query_ids = [8, 9]\<rparr>)"
  by (simp add: query_id_ctor_def query_id_dtor_def tail_def head_def Let_def)

theorem acquired_ids_increase_witness:
  "unat (next_query_id
      \<lparr>next_query_id = 7, oldest_outstanding_query_id = 7, outstanding_query_ids = []\<rparr>)
     + count_acquires [Acquire, Acquire, Release 7, Acquire] < 2 ^ 64
   \<and> alloc_inv_below \<lparr>next_query_id = 7, oldest_outstanding_query_id = 7, outstanding_query_ids = []\<rparr>
   \<and> run_ops [Acquire, Acquire, Release 7, Acquire]
        \<lparr>next_query_id = 7, oldest_outstanding_query_id = 7, outstanding_query_ids = []\<rparr>
      = Inr ([7, 8, 9],
          \<lparr>next_query_id = 10, oldest_outstanding_query_id = 8, outstanding_query_ids = [8, 9]\<rparr>)
   \<and> sorted_wrt (<) [7, 8, 9 :: uint64_t]
   \<and> query_id_ctor
        \<lparr>next_query_id = 10, oldest_outstanding_query_id = 8, outstanding_query_ids = [8, 9]\<rparr>
      = Inr (10,
          \<lparr>next_query_id = 11, oldest_outstanding_query_id = 8, outstanding_query_ids = [8, 9, 10]\<rparr>)
   \<and> (9 :: uint64_t) < 10 \<and> (8 :: uint64_t) \<le> 10"
proof -
  let ?start = "\<lparr>next_query_id = 7, oldest_outstanding_query_id = 7, outstanding_query_ids = []\<rparr>"
  let ?final = "\<lparr>next_query_id = 10, oldest_outstanding_query_id = 8, outstanding_query_ids = [8, 9]\<rparr>"
  have i: "alloc_inv_below ?start"
    by (simp add: alloc_inv_below_def alloc_inv_def watermark_ok_def)
  have b: "unat (next_query_id ?start) + count_acquires [Acquire, Acquire, Release 7, Acquire] < 2 ^ 64"
    by simp
  note th = acquired_ids_increase [OF b]
  from th [THEN conjunct1, rule_format, OF run_ops_scenario2]
  have s: "sorted_wrt (<) [7, 8, 9 :: uint64_t]" .
  have c: "query_id_ctor ?final = Inr (10,
          \<lparr>next_query_id = 11, oldest_outstanding_query_id = 8, outstanding_query_ids = [8, 9, 10]\<rparr>)"
    by (simp add: query_id_ctor_def tail_def Let_def)
  have t: "tail (outstanding_query_ids ?final) = Some 9" by (simp add: tail_def)
  from th [THEN conjunct2, THEN conjunct2, rule_format, OF c]
  have "(\<forall>l. tail (outstanding_query_ids ?final) = Some l \<longrightarrow> l < 10)
       \<and> oldest_outstanding_query_id ?final \<le> 10" .
  with t have "(9 :: uint64_t) < 10 \<and> (8 :: uint64_t) \<le> 10" by simp
  with b i s c show ?thesis by (simp only: run_ops_scenario2 simp_thms)
qed

text \<open>
  C4, at the wrap-around of the counter: from the allocator whose counter holds the
  greatest \<open>uint64_t\<close> and whose list is empty, constructing a handle, destroying it and
  constructing a second one fails no \<open>guarantee\<close>, and the value of the second handle
  (0) is less than the value of the first.
\<close>

theorem acquired_ids_wrap_around:
  "alloc_inv_below
     \<lparr>next_query_id = 18446744073709551615, oldest_outstanding_query_id = 18446744073709551615,
      outstanding_query_ids = []\<rparr>
   \<and> run_ops [Acquire, Release 18446744073709551615, Acquire]
        \<lparr>next_query_id = 18446744073709551615, oldest_outstanding_query_id = 18446744073709551615,
         outstanding_query_ids = []\<rparr>
      = Inr ([18446744073709551615, 0],
          \<lparr>next_query_id = 1, oldest_outstanding_query_id = 0, outstanding_query_ids = [0]\<rparr>)
   \<and> \<not> (18446744073709551615 :: uint64_t) < 0
   \<and> \<not> sorted_wrt (<) [18446744073709551615, 0 :: uint64_t]"
  by (simp add: alloc_inv_below_def alloc_inv_def watermark_ok_def query_id_ctor_def
      query_id_dtor_def tail_def head_def Let_def)

section \<open>Properties of the query envelope\<close>












section \<open>Properties of the arena\<close>

lemma ref_inv_iff:
  "ref_inv terms \<longleftrightarrow> (\<forall>i < length terms. ref_target_ok terms (terms ! i))"
  by (simp add: ref_inv_def list_all_length)

lemma ref_target_ok_append:
  "ref_target_ok terms c \<Longrightarrow> ref_target_ok (terms @ [d]) c"
  by (auto simp: ref_target_ok_def nth_append split: option.splits)

lemma ref_inv_append:
  assumes "ref_inv terms" and "ref_target_ok (terms @ [d]) d"
  shows "ref_inv (terms @ [d])"
  using assms
  by (auto simp: ref_inv_iff nth_append less_Suc_eq ref_target_ok_append)

lemma new_term_inv: "ref_inv terms \<Longrightarrow> ref_inv (snd (new_term ty bt_id terms))"
  by (auto simp: new_term_def default_cell_def ref_target_ok_def intro!: ref_inv_append)

lemma new_ref_target:
  assumes "new_ref src_ptr terms = Inr (r, terms1)"
  shows "r = length terms \<and> length terms1 = Suc (length terms) \<and> take (length terms) terms1 = terms
    \<and> cell_type (terms1 ! r) = REFERENCE
    \<and> (\<exists>q. cell_src (terms1 ! r) = Some q \<and> q < length terms \<and> cell_type (terms1 ! q) \<noteq> REFERENCE
         \<and> q = (if cell_type (terms ! src_ptr) = REFERENCE then the (cell_src (terms ! src_ptr))
                else src_ptr))"
  using assms
  by (auto simp: new_ref_def Let_def nth_append split: if_splits option.splits)

lemma new_ref_inv:
  assumes "ref_inv terms" and "new_ref src_ptr terms = Inr (r, terms1)"
  shows "ref_inv terms1"
proof -
  from assms(2) obtain d where t1: "terms1 = terms @ [d]"
    and d: "ref_target_ok (terms @ [d]) d"
    by (auto simp: new_ref_def Let_def nth_append ref_target_ok_def split: if_splits option.splits)
  with assms(1) show ?thesis by (simp add: ref_inv_append)
qed

lemma write_cell_inv:
  assumes "ref_inv terms" and "write_cell p f terms = Inr terms1"
    and keep: "\<And>c. cell_src (f c) = cell_src c
          \<and> (cell_type (f c) = REFERENCE \<longleftrightarrow> cell_type c = REFERENCE)"
  shows "ref_inv terms1"
proof -
  from assms(2) have p: "p < length terms" and t1: "terms1 = terms[p := f (terms ! p)]"
    by (auto simp: write_cell_def split: if_splits)
  show ?thesis
    unfolding ref_inv_iff
  proof (intro allI impI)
    fix i assume "i < length terms1"
    then have i: "i < length terms" by (simp add: t1)
    with assms(1) have ok: "ref_target_ok terms (terms ! i)" by (simp add: ref_inv_iff)
    have ty: "\<And>j. j < length terms \<Longrightarrow>
        (cell_type (terms1 ! j) = REFERENCE \<longleftrightarrow> cell_type (terms ! j) = REFERENCE)"
    proof -
      fix j assume "j < length terms"
      then show "cell_type (terms1 ! j) = REFERENCE \<longleftrightarrow> cell_type (terms ! j) = REFERENCE"
        using keep [of "terms ! p"] by (cases "j = p") (simp_all add: t1)
    qed
    have sr: "cell_src (terms1 ! i) = cell_src (terms ! i)"
      using keep [of "terms ! p"] i by (cases "i = p") (simp_all add: t1)
    show "ref_target_ok terms1 (terms1 ! i)"
      using ok ty [OF i] sr ty
      by (auto simp: ref_target_ok_def t1 split: option.splits)
  qed
qed

lemma apply_op_inv:
  assumes "ref_inv terms" and "apply_op x terms = Inr terms1"
  shows "ref_inv terms1"
proof (cases x)
  case (New_term ty bt_id)
  with assms show ?thesis using new_term_inv [of terms ty bt_id] by simp
next
  case (New_ref src_ptr)
  with assms show ?thesis by (auto split: sum.splits dest: new_ref_inv)
next
  case (Now_to_datum p now)
  with assms show ?thesis
    by (auto intro!: write_cell_inv [OF assms(1)] simp: DATUM_def REFERENCE_def NOW_def
        split: if_splits)
qed (use assms in \<open>auto intro!: write_cell_inv [OF assms(1)]\<close>)

lemma apply_ops_inv:
  "ref_inv terms \<Longrightarrow> apply_ops xs terms = Inr terms1 \<Longrightarrow> ref_inv terms1"
  by (induction xs arbitrary: terms) (auto split: sum.splits dest: apply_op_inv)

text \<open>
  C3. Starting from an arena in which no \<open>REFERENCE\<close> has a \<open>REFERENCE\<close> as its target,
  after any sequence of \<open>new_term\<close>, \<open>new_ref\<close> and the writes of the parsers that
  completes, every \<open>REFERENCE\<close> of the arena with a non-null target has a target in the
  arena that is not a \<open>REFERENCE\<close>. A \<open>new_ref\<close> that returns has made a \<open>REFERENCE\<close>
  whose target is not a \<open>REFERENCE\<close>: the argument itself, or the argument's target
  when the argument is a \<open>REFERENCE\<close>.
\<close>

theorem reference_targets_not_references:
  assumes "ref_inv terms" and "apply_ops xs terms = Inr terms1"
  shows "(\<forall>i < length terms1. \<forall>p. cell_type (terms1 ! i) = REFERENCE \<and> cell_src (terms1 ! i) = Some p
            \<longrightarrow> p < length terms1 \<and> cell_type (terms1 ! p) \<noteq> REFERENCE)
       \<and> (\<forall>src_ptr r terms2. new_ref src_ptr terms1 = Inr (r, terms2) \<longrightarrow>
             cell_type (terms2 ! r) = REFERENCE
             \<and> (\<exists>q. cell_src (terms2 ! r) = Some q \<and> q < length terms1
                    \<and> cell_type (terms2 ! q) \<noteq> REFERENCE
                    \<and> q = (if cell_type (terms1 ! src_ptr) = REFERENCE
                           then the (cell_src (terms1 ! src_ptr)) else src_ptr)))"
proof
  have "ref_inv terms1" using assms by (rule apply_ops_inv)
  then show "\<forall>i < length terms1. \<forall>p. cell_type (terms1 ! i) = REFERENCE \<and> cell_src (terms1 ! i) = Some p
            \<longrightarrow> p < length terms1 \<and> cell_type (terms1 ! p) \<noteq> REFERENCE"
    by (auto simp: ref_inv_iff ref_target_ok_def)
next
  show "\<forall>src_ptr r terms2. new_ref src_ptr terms1 = Inr (r, terms2) \<longrightarrow>
             cell_type (terms2 ! r) = REFERENCE
             \<and> (\<exists>q. cell_src (terms2 ! r) = Some q \<and> q < length terms1
                    \<and> cell_type (terms2 ! q) \<noteq> REFERENCE
                    \<and> q = (if cell_type (terms1 ! src_ptr) = REFERENCE
                           then the (cell_src (terms1 ! src_ptr)) else src_ptr))"
    using new_ref_target by blast
qed

lemma apply_ops_scenario:
  "apply_ops [New_term DATUM 0, New_ref 0, New_ref 1] [] =
     Inr [default_cell\<lparr>cell_type := DATUM, cell_bt := 0\<rparr>,
          default_cell\<lparr>cell_type := REFERENCE, cell_bt := 0, cell_src := Some 0\<rparr>,
          default_cell\<lparr>cell_type := REFERENCE, cell_bt := 0, cell_src := Some 0\<rparr>]"
  by (simp add: new_term_def new_ref_def default_cell_def DATUM_def REFERENCE_def)

theorem reference_targets_not_references_witness:
  "ref_inv []
   \<and> apply_ops [New_term DATUM 0, New_ref 0, New_ref 1] [] =
     Inr [default_cell\<lparr>cell_type := DATUM, cell_bt := 0\<rparr>,
          default_cell\<lparr>cell_type := REFERENCE, cell_bt := 0, cell_src := Some 0\<rparr>,
          default_cell\<lparr>cell_type := REFERENCE, cell_bt := 0, cell_src := Some 0\<rparr>]
   \<and> cell_type (default_cell\<lparr>cell_type := DATUM, cell_bt := 0\<rparr>) \<noteq> REFERENCE"
proof -
  have i: "ref_inv []" by (simp add: ref_inv_def)
  from reference_targets_not_references [OF i apply_ops_scenario, THEN conjunct1, rule_format, of 2 0]
  have "cell_type (default_cell\<lparr>cell_type := DATUM, cell_bt := 0\<rparr>) \<noteq> REFERENCE"
    by (simp add: default_cell_def REFERENCE_def)
  with i show ?thesis by (simp only: apply_ops_scenario simp_thms)
qed

section \<open>Properties of the parser\<close>

lemma optarg_name_set_optarg_name [simp]: "optarg_name (set_optarg_name k t) = k"
  by (simp add: set_optarg_name_def)

lemma add_optargs_loop_members:
  "add_optargs_loop to_datum ms bt_reg bt_id st = Inr (os, st') \<Longrightarrow>
     list_all2 (\<lambda>(k, x) o_term. \<exists>child_bt s s' t. parse_internal to_datum x bt_reg child_bt s = Inr (t, s')
                  \<and> o_term = set_optarg_name k t) ms os"
proof (induction ms arbitrary: st os)
  case Nil
  then show ?case by simp
next
  case (Cons m ms)
  obtain k x where m: "m = (k, x)" by (cases m)
  from Cons.prems obtain child_bt st1 t st2 ts where
    p: "parse_internal to_datum x bt_reg child_bt st1 = Inr (t, st2)"
    and l: "add_optargs_loop to_datum ms bt_reg bt_id st2 = Inr (ts, st')"
    and os: "os = set_optarg_name k t # ts"
    by (auto simp: m split: if_splits sum.splits prod.splits)
  from Cons.IH [OF l] p os show ?case by (auto simp: m)
qed

lemma list_all2_names:
  "list_all2 (\<lambda>(k, x) o_term. \<exists>child_bt s s' t. parse_internal to_datum x bt_reg child_bt s = Inr (t, s')
                  \<and> o_term = set_optarg_name k t) ms os \<Longrightarrow> map optarg_name os = map fst ms"
  by (induction ms os rule: list_all2_induct) auto

lemma parse_internal_object:
  "parse_internal to_datum (JObject ms) bt_reg bt_id st =
     (case add_optargs_loop to_datum ms bt_reg bt_id st of
        Inl e \<Rightarrow> Inl e
      | Inr (os, st') \<Rightarrow> Inr (Raw_term MAKE_OBJ bt_id [] UNINITIALIZED None [] os, st'))"
  by (subst parse_internal.simps)
    (simp add: IsArray_def IsObject_def check_type_def new_term_value_def set_optargs_def
      add_optargs.simps Let_def split: sum.splits)

lemma parse_internal_object_Cons:
  "parse_internal to_datum (JObject ((k, x) # ms)) bt_reg bt_id st =
     (let child_bt = (if bt_reg then fst (new_frame bt_id (R_STR k) (backtrace_registry st))
                      else empty_bt);
          st0 = (if bt_reg
                 then st\<lparr>backtrace_registry := snd (new_frame bt_id (R_STR k) (backtrace_registry st))\<rparr>
                 else st)
      in case parse_internal to_datum x bt_reg child_bt st0 of
           Inl e \<Rightarrow> Inl e
         | Inr (t, st1) \<Rightarrow>
             (case parse_internal to_datum (JObject ms) bt_reg bt_id st1 of
                Inl e \<Rightarrow> Inl e
              | Inr (rest, st2) \<Rightarrow>
                  Inr (Raw_term MAKE_OBJ bt_id [] UNINITIALIZED None []
                         (set_optarg_name k t # optargs_list rest), st2)))"
  unfolding parse_internal_object [of to_datum _ bt_reg bt_id]
  by (cases bt_reg) (simp_all add: Let_def split_beta split: sum.splits)

text \<open>
  C5. \<open>parse_internal\<close> on a JSON value \<open>v\<close> with the backtrace id \<open>bt_id\<close>: an array
  with no or with more than three elements, or whose first element is not a number,
  raises a \<open>GENERIC\<close> error that carries \<open>bt_id\<close>; an array whose first element is
  \<open>DATUM\<close> raises that error unless it has exactly two elements, and then gives a
  \<open>DATUM\<close> term whose datum is the conversion of the second element by \<open>to_datum\<close> (or
  raises what \<open>to_datum\<close> raises); an object gives a \<open>MAKE_OBJ\<close> term without arguments
  whose optargs are the parsed members of the object, in order and under their names:
  the empty object gives the term without optargs, and an object with a first member
  \<open>(k, x)\<close> gives the term whose first optarg is the term parsed from \<open>x\<close> (with the
  child frame of \<open>k\<close> when there is a registry) under the name \<open>k\<close>, followed by the
  optargs of the object of the other members, and raises what the first of these two
  parses raises; any other value gives a \<open>DATUM\<close> term whose datum is its conversion by
  \<open>to_datum\<close> (or raises what \<open>to_datum\<close> raises).
\<close>

theorem parse_internal_cases:
  "(IsArray v \<and> (Size v = 0 \<or> Size v > 3 \<or> \<not> IsNumber (elem v 0)) \<longrightarrow>
      parse_internal to_datum v bt_reg bt_id st = Inl (exc_t GENERIC bt_id))
   \<and> (length xs \<noteq> 1 \<longrightarrow>
         parse_internal to_datum (JArray (JNumber DATUM # xs)) bt_reg bt_id st
           = Inl (exc_t GENERIC bt_id))
   \<and> parse_internal to_datum (JArray [JNumber DATUM, x]) bt_reg bt_id st =
         (case to_datum x of
            Inl e \<Rightarrow> Inl e
          | Inr d \<Rightarrow> Inr (Raw_term DATUM bt_id [] d None [] [], st))
   \<and> parse_internal to_datum (JObject []) bt_reg bt_id st =
         Inr (Raw_term MAKE_OBJ bt_id [] UNINITIALIZED None [] [], st)
   \<and> parse_internal to_datum (JObject ((k, x) # ms)) bt_reg bt_id st =
         (let child_bt = (if bt_reg then fst (new_frame bt_id (R_STR k) (backtrace_registry st))
                          else empty_bt);
              st0 = (if bt_reg
                     then st\<lparr>backtrace_registry :=
                                snd (new_frame bt_id (R_STR k) (backtrace_registry st))\<rparr>
                     else st)
          in case parse_internal to_datum x bt_reg child_bt st0 of
               Inl e \<Rightarrow> Inl e
             | Inr (t, st1) \<Rightarrow>
                 (case parse_internal to_datum (JObject ms) bt_reg bt_id st1 of
                    Inl e \<Rightarrow> Inl e
                  | Inr (rest, st2) \<Rightarrow>
                      Inr (Raw_term MAKE_OBJ bt_id [] UNINITIALIZED None []
                             (set_optarg_name k t # optargs_list rest), st2)))
   \<and> (\<forall>t st'. parse_internal to_datum (JObject ms) bt_reg bt_id st = Inr (t, st') \<longrightarrow>
         type t = MAKE_OBJ \<and> bt t = bt_id \<and> args_list t = []
         \<and> map optarg_name (optargs_list t) = map fst ms
         \<and> list_all2 (\<lambda>(k, x) o_term. \<exists>child_bt s s' t.
                  parse_internal to_datum x bt_reg child_bt s = Inr (t, s')
                  \<and> o_term = set_optarg_name k t) ms (optargs_list t))
   \<and> (\<not> IsArray v \<and> \<not> IsObject v \<longrightarrow>
         parse_internal to_datum v bt_reg bt_id st =
           (case to_datum v of
              Inl e \<Rightarrow> Inl e
            | Inr d \<Rightarrow> Inr (Raw_term DATUM bt_id [] d None [] [], st)))"
proof (intro conjI impI allI)
  assume "IsArray v \<and> (Size v = 0 \<or> Size v > 3 \<or> \<not> IsNumber (elem v 0))"
  then show "parse_internal to_datum v bt_reg bt_id st = Inl (exc_t GENERIC bt_id)"
    by (subst parse_internal.simps)
      (auto simp: check_term_size_def check_type_def IsNumber_def)
next
  assume "length xs \<noteq> 1"
  then show "parse_internal to_datum (JArray (JNumber DATUM # xs)) bt_reg bt_id st
      = Inl (exc_t GENERIC bt_id)"
    by (subst parse_internal.simps)
      (auto simp: check_term_size_def check_type_def IsArray_def new_term_value_def)
next
  show "parse_internal to_datum (JArray [JNumber DATUM, x]) bt_reg bt_id st =
         (case to_datum x of
            Inl e \<Rightarrow> Inl e
          | Inr d \<Rightarrow> Inr (Raw_term DATUM bt_id [] d None [] [], st))"
    by (subst parse_internal.simps)
      (simp add: check_term_size_def check_type_def IsArray_def new_term_value_def set_datum_def
        DATUM_def NOW_def split: sum.splits)
next
  show "parse_internal to_datum (JObject []) bt_reg bt_id st =
         Inr (Raw_term MAKE_OBJ bt_id [] UNINITIALIZED None [] [], st)"
    by (simp add: parse_internal_object)
next
  show "parse_internal to_datum (JObject ((k, x) # ms)) bt_reg bt_id st =
         (let child_bt = (if bt_reg then fst (new_frame bt_id (R_STR k) (backtrace_registry st))
                          else empty_bt);
              st0 = (if bt_reg
                     then st\<lparr>backtrace_registry :=
                                snd (new_frame bt_id (R_STR k) (backtrace_registry st))\<rparr>
                     else st)
          in case parse_internal to_datum x bt_reg child_bt st0 of
               Inl e \<Rightarrow> Inl e
             | Inr (t, st1) \<Rightarrow>
                 (case parse_internal to_datum (JObject ms) bt_reg bt_id st1 of
                    Inl e \<Rightarrow> Inl e
                  | Inr (rest, st2) \<Rightarrow>
                      Inr (Raw_term MAKE_OBJ bt_id [] UNINITIALIZED None []
                             (set_optarg_name k t # optargs_list rest), st2)))"
    by (rule parse_internal_object_Cons)
next
  fix t st'
  assume a: "parse_internal to_datum (JObject ms) bt_reg bt_id st = Inr (t, st')"
  then obtain os where l: "add_optargs_loop to_datum ms bt_reg bt_id st = Inr (os, st')"
    and t: "t = Raw_term MAKE_OBJ bt_id [] UNINITIALIZED None [] os"
    by (auto simp: parse_internal_object split: sum.splits)
  note m = add_optargs_loop_members [OF l]
  from t m list_all2_names [OF m]
  show "type t = MAKE_OBJ" "bt t = bt_id" "args_list t = []"
    "map optarg_name (optargs_list t) = map fst ms"
    "list_all2 (\<lambda>(k, x) o_term. \<exists>child_bt s s' t.
                  parse_internal to_datum x bt_reg child_bt s = Inr (t, s')
                  \<and> o_term = set_optarg_name k t) ms (optargs_list t)"
    by simp_all
next
  assume "\<not> IsArray v \<and> \<not> IsObject v"
  then show "parse_internal to_datum v bt_reg bt_id st =
           (case to_datum v of
              Inl e \<Rightarrow> Inl e
            | Inr d \<Rightarrow> Inr (Raw_term DATUM bt_id [] d None [] [], st))"
    by (subst parse_internal.simps)
      (simp add: new_term_value_def set_datum_def Let_def split: sum.splits)
qed

theorem parse_internal_cases_witness:
  "parse_internal (sample_to_datum []) (JArray []) True 0
     \<lparr>backtrace_registry = [(0, R_NULL)], global_optarg_list = [], start_time = UNINITIALIZED,
      clock = (\<lambda>k. 1000 + int k), clock_reads = 0\<rparr> = Inl (exc_t GENERIC 0)
   \<and> parse_internal (sample_to_datum []) (JArray [JNumber DATUM, JNumber 5, JNumber 6]) True 0
     \<lparr>backtrace_registry = [(0, R_NULL)], global_optarg_list = [], start_time = UNINITIALIZED,
      clock = (\<lambda>k. 1000 + int k), clock_reads = 0\<rparr> = Inl (exc_t GENERIC 0)
   \<and> parse_internal (sample_to_datum []) (JArray [JNumber DATUM, JNumber 5]) True 0
     \<lparr>backtrace_registry = [(0, R_NULL)], global_optarg_list = [], start_time = UNINITIALIZED,
      clock = (\<lambda>k. 1000 + int k), clock_reads = 0\<rparr>
     = Inr (Raw_term DATUM 0 [] (R_NUM 5) None [] [],
        \<lparr>backtrace_registry = [(0, R_NULL)], global_optarg_list = [], start_time = UNINITIALIZED,
         clock = (\<lambda>k. 1000 + int k), clock_reads = 0\<rparr>)
   \<and> parse_internal (sample_to_datum []) (JObject [(''a'', JNumber 1), (''b'', JNumber 2)]) True 0
     \<lparr>backtrace_registry = [(0, R_NULL)], global_optarg_list = [], start_time = UNINITIALIZED,
      clock = (\<lambda>k. 1000 + int k), clock_reads = 0\<rparr>
     = Inr (Raw_term MAKE_OBJ 0 [] UNINITIALIZED None []
              [Raw_term DATUM 1 ''a'' (R_NUM 1) None [] [], Raw_term DATUM 2 ''b'' (R_NUM 2) None [] []],
        \<lparr>backtrace_registry = [(0, R_NULL), (0, R_STR ''a''), (0, R_STR ''b'')],
         global_optarg_list = [], start_time = UNINITIALIZED,
         clock = (\<lambda>k. 1000 + int k), clock_reads = 0\<rparr>)
   \<and> parse_internal (sample_to_datum []) (JString ''x'') True 0
     \<lparr>backtrace_registry = [(0, R_NULL)], global_optarg_list = [], start_time = UNINITIALIZED,
      clock = (\<lambda>k. 1000 + int k), clock_reads = 0\<rparr>
     = Inr (Raw_term DATUM 0 [] (R_STR ''x'') None [] [],
        \<lparr>backtrace_registry = [(0, R_NULL)], global_optarg_list = [], start_time = UNINITIALIZED,
         clock = (\<lambda>k. 1000 + int k), clock_reads = 0\<rparr>)
   \<and> parse_internal (sample_to_datum [JString ''x'']) (JString ''x'') True 0
     \<lparr>backtrace_registry = [(0, R_NULL)], global_optarg_list = [], start_time = UNINITIALIZED,
      clock = (\<lambda>k. 1000 + int k), clock_reads = 0\<rparr>
     = Inl (exc_t GENERIC empty_bt)"
proof -
  let ?td = "sample_to_datum []"
  let ?st = "\<lparr>backtrace_registry = [(0, R_NULL)], global_optarg_list = [],
      start_time = UNINITIALIZED, clock = (\<lambda>k. 1000 + int k), clock_reads = 0\<rparr>"
  let ?st_a = "\<lparr>backtrace_registry = [(0, R_NULL), (0, R_STR ''a'')], global_optarg_list = [],
      start_time = UNINITIALIZED, clock = (\<lambda>k. 1000 + int k), clock_reads = 0\<rparr>"
  let ?st_b = "\<lparr>backtrace_registry = [(0, R_NULL), (0, R_STR ''a''), (0, R_STR ''b'')],
      global_optarg_list = [],
      start_time = UNINITIALIZED, clock = (\<lambda>k. 1000 + int k), clock_reads = 0\<rparr>"
  have 1: "parse_internal ?td (JArray []) True 0 ?st = Inl (exc_t GENERIC 0)"
    using parse_internal_cases [where v = "JArray []" and to_datum = ?td and bt_reg = True
        and bt_id = 0 and st = ?st, THEN conjunct1]
    by (simp add: IsArray_def)
  have 2: "parse_internal ?td (JArray [JNumber DATUM, JNumber 5, JNumber 6]) True 0 ?st
      = Inl (exc_t GENERIC 0)"
    using parse_internal_cases [where xs = "[JNumber 5, JNumber 6]" and to_datum = ?td
        and bt_reg = True and bt_id = 0 and st = ?st, THEN conjunct2, THEN conjunct1]
    by simp
  have 3: "parse_internal ?td (JArray [JNumber DATUM, JNumber 5]) True 0 ?st
      = Inr (Raw_term DATUM 0 [] (R_NUM 5) None [] [], ?st)"
    using parse_internal_cases [where x = "JNumber 5" and to_datum = ?td
        and bt_reg = True and bt_id = 0 and st = ?st,
        THEN conjunct2, THEN conjunct2, THEN conjunct1]
    by (simp add: sample_to_datum_def)
  have a: "parse_internal ?td (JNumber 1) True 1 ?st_a
      = Inr (Raw_term DATUM 1 [] (R_NUM 1) None [] [], ?st_a)"
    using parse_internal_cases [where v = "JNumber 1" and to_datum = ?td
        and bt_reg = True and bt_id = 1 and st = ?st_a,
        THEN conjunct2, THEN conjunct2, THEN conjunct2, THEN conjunct2, THEN conjunct2,
        THEN conjunct2]
    by (simp add: sample_to_datum_def IsArray_def IsObject_def)
  have b: "parse_internal ?td (JNumber 2) True 2 ?st_b
      = Inr (Raw_term DATUM 2 [] (R_NUM 2) None [] [], ?st_b)"
    using parse_internal_cases [where v = "JNumber 2" and to_datum = ?td
        and bt_reg = True and bt_id = 2 and st = ?st_b,
        THEN conjunct2, THEN conjunct2, THEN conjunct2, THEN conjunct2, THEN conjunct2,
        THEN conjunct2]
    by (simp add: sample_to_datum_def IsArray_def IsObject_def)
  have n: "parse_internal ?td (JObject []) True 0 ?st_b
      = Inr (Raw_term MAKE_OBJ 0 [] UNINITIALIZED None [] [], ?st_b)"
    using parse_internal_cases [where to_datum = ?td and bt_reg = True and bt_id = 0
        and st = ?st_b, THEN conjunct2, THEN conjunct2, THEN conjunct2, THEN conjunct1]
    by simp
  have ob: "parse_internal ?td (JObject [(''b'', JNumber 2)]) True 0 ?st_a
      = Inr (Raw_term MAKE_OBJ 0 [] UNINITIALIZED None []
               [Raw_term DATUM 2 ''b'' (R_NUM 2) None [] []], ?st_b)"
    using parse_internal_cases [where k = "''b''" and x = "JNumber 2" and ms = "[]"
        and to_datum = ?td and bt_reg = True and bt_id = 0 and st = ?st_a,
        THEN conjunct2, THEN conjunct2, THEN conjunct2, THEN conjunct2, THEN conjunct1]
      b n
    by (simp add: new_frame_def set_optarg_name_def numeral_2_eq_2)
  have 4: "parse_internal ?td (JObject [(''a'', JNumber 1), (''b'', JNumber 2)]) True 0 ?st
      = Inr (Raw_term MAKE_OBJ 0 [] UNINITIALIZED None []
               [Raw_term DATUM 1 ''a'' (R_NUM 1) None [] [], Raw_term DATUM 2 ''b'' (R_NUM 2) None [] []],
             ?st_b)"
    using parse_internal_cases [where k = "''a''" and x = "JNumber 1"
        and ms = "[(''b'', JNumber 2)]"
        and to_datum = ?td and bt_reg = True and bt_id = 0 and st = ?st,
        THEN conjunct2, THEN conjunct2, THEN conjunct2, THEN conjunct2, THEN conjunct1]
      a ob
    by (simp add: new_frame_def set_optarg_name_def)
  have 5: "parse_internal ?td (JString ''x'') True 0 ?st
     = Inr (Raw_term DATUM 0 [] (R_STR ''x'') None [] [], ?st)"
    using parse_internal_cases [where v = "JString ''x''" and to_datum = ?td
        and bt_reg = True and bt_id = 0 and st = ?st,
        THEN conjunct2, THEN conjunct2, THEN conjunct2, THEN conjunct2, THEN conjunct2,
        THEN conjunct2]
    by (simp add: sample_to_datum_def IsArray_def IsObject_def)
  have 6: "parse_internal (sample_to_datum [JString ''x'']) (JString ''x'') True 0 ?st
     = Inl (exc_t GENERIC empty_bt)"
    using parse_internal_cases [where v = "JString ''x''"
        and to_datum = "sample_to_datum [JString ''x'']"
        and bt_reg = True and bt_id = 0 and st = ?st,
        THEN conjunct2, THEN conjunct2, THEN conjunct2, THEN conjunct2, THEN conjunct2,
        THEN conjunct2]
    by (simp add: sample_to_datum_def IsArray_def IsObject_def)
  from 1 2 3 4 5 6 show ?thesis by (intro conjI)
qed

section \<open>The start time of a query\<close>

lemma stable_refl [simp]: "stable s s"
  by (simp add: stable_def)

lemma stable_trans: "stable s1 s2 \<Longrightarrow> stable s2 s3 \<Longrightarrow> stable s1 s3"
  by (auto simp: stable_def split: if_splits)

lemma stable_frames [simp]: "stable s (s\<lparr>backtrace_registry := f\<rparr>)"
  by (simp add: stable_def)

lemma get_time_has:
  "get_time s = (now, s') \<Longrightarrow> has now \<and> start_time s' = now \<and> stable s s'
     \<and> get_time s' = (now, s')"
  by (auto simp: get_time_def time_now_def stable_def split: if_splits)

lemma parse_internal_Inr:
  assumes "parse_internal to_datum v bt_reg bt_id st = Inr (t, st')"
  shows "(IsArray v \<and> IsNumber (elem v 0) \<and> GetInt (elem v 0) = DATUM \<and> Size v = 2
            \<and> (\<exists>d. to_datum (elem v 1) = Inr d \<and> t = Raw_term DATUM bt_id [] d None [] [])
            \<and> st' = st)
       \<or> (IsArray v \<and> IsNumber (elem v 0) \<and> GetInt (elem v 0) \<noteq> DATUM \<and> Size v = 1
            \<and> now_rewrite (Raw_term (GetInt (elem v 0)) bt_id [] UNINITIALIZED None [] []) st t st')
       \<or> (IsArray v \<and> IsNumber (elem v 0) \<and> GetInt (elem v 0) \<noteq> DATUM \<and> Size v = 2
            \<and> (\<exists>ts st1. add_args to_datum (elem v 1) bt_reg bt_id st = Inr (ts, st1)
                \<and> now_rewrite (Raw_term (GetInt (elem v 0)) bt_id [] UNINITIALIZED None ts []) st1 t st'))
       \<or> (IsArray v \<and> IsNumber (elem v 0) \<and> GetInt (elem v 0) \<noteq> DATUM \<and> Size v = 3
            \<and> (\<exists>ts st1 os st2. add_args to_datum (elem v 1) bt_reg bt_id st = Inr (ts, st1)
                \<and> add_optargs to_datum (elem v 2) bt_reg bt_id st1 = Inr (os, st2)
                \<and> now_rewrite (Raw_term (GetInt (elem v 0)) bt_id [] UNINITIALIZED None ts os) st2 t st'))
       \<or> (\<not> IsArray v \<and> IsObject v
            \<and> (\<exists>os. add_optargs to_datum v bt_reg bt_id st = Inr (os, st')
                \<and> t = Raw_term MAKE_OBJ bt_id [] UNINITIALIZED None [] os))
       \<or> (\<not> IsArray v \<and> \<not> IsObject v
            \<and> (\<exists>d. to_datum v = Inr d \<and> t = Raw_term DATUM bt_id [] d None [] [])
            \<and> st' = st)"
proof (cases "IsArray v")
  case False
  with assms show ?thesis
    by (subst (asm) parse_internal.simps)
      (auto simp: new_term_value_def set_datum_def set_optargs_def Let_def
        split: sum.splits if_splits)
next
  case True
  from assms True have sz: "Size v \<noteq> 0" "Size v \<le> 3" and num: "IsNumber (elem v 0)"
    by (subst (asm) parse_internal.simps,
        auto simp: check_term_size_def check_type_def IsNumber_def split: if_splits sum.splits)+
  have c1: "check_term_size v bt_id = Inr ()" using sz by (simp add: check_term_size_def)
  have c2: "check_type (elem v 0) kNumberType bt_id = Inr ()"
    using num by (simp add: check_type_def IsNumber_def)
  define ty where "ty = GetInt (elem v 0)"
  note unf = parse_internal.simps [of to_datum v bt_reg bt_id st, unfolded ty_def [symmetric]]
  show ?thesis
  proof (cases "ty = DATUM")
    case d: True
    with assms True c1 c2 num show ?thesis
      unfolding unf
      by (auto simp: ty_def [symmetric] new_term_value_def set_datum_def DATUM_def NOW_def
          split: if_splits sum.splits)
  next
    case d: False
    have nr: "\<And>ts os s. (if type (Raw_term ty bt_id [] UNINITIALIZED None ts os) = NOW
            \<and> num_args (Raw_term ty bt_id [] UNINITIALIZED None ts os) = Inr 0
            \<and> num_optargs (Raw_term ty bt_id [] UNINITIALIZED None ts os) = Inr 0
          then (case get_time s of (now, st2) \<Rightarrow>
                  Inr (set_datum now (set_type DATUM (Raw_term ty bt_id [] UNINITIALIZED None ts os)), st2))
          else Inr (Raw_term ty bt_id [] UNINITIALIZED None ts os, s)) = Inr (t, st')
        \<Longrightarrow> now_rewrite (Raw_term ty bt_id [] UNINITIALIZED None ts os) s t st'"
      by (auto simp: now_rewrite_def num_args_def num_optargs_def args_def optargs_def
          set_datum_def set_type_def NOW_def REFERENCE_def split: if_splits prod.splits)
    consider "Size v = 1" | "Size v = 2" | "Size v = 3" using sz by linarith
    then show ?thesis
    proof cases
      case 1
      with assms True c1 c2 d have "now_rewrite (Raw_term ty bt_id [] UNINITIALIZED None [] []) st t st'"
        unfolding unf by (intro nr) (simp add: new_term_value_def Let_def)
      with True num d 1 show ?thesis by (simp add: ty_def)
    next
      case 2
      with assms True c1 c2 d obtain ts st1 where
        a: "add_args to_datum (elem v 1) bt_reg bt_id st = Inr (ts, st1)"
        unfolding unf by (auto simp: new_term_value_def Let_def split: sum.splits)
      with assms True c1 c2 d 2 have "now_rewrite (Raw_term ty bt_id [] UNINITIALIZED None ts []) st1 t st'"
        unfolding unf by (intro nr) (simp add: new_term_value_def set_args_def Let_def)
      with True num d 2 a show ?thesis by (simp add: ty_def)
    next
      case 3
      with assms True c1 c2 d obtain ts st1 where
        a: "add_args to_datum (elem v 1) bt_reg bt_id st = Inr (ts, st1)"
        unfolding unf by (auto simp: new_term_value_def Let_def split: sum.splits)
      with assms True c1 c2 d 3 obtain os st2 where
        b: "add_optargs to_datum (elem v 2) bt_reg bt_id st1 = Inr (os, st2)"
        unfolding unf by (auto simp: new_term_value_def Let_def split: sum.splits)
      with assms True c1 c2 d 3 a
      have "now_rewrite (Raw_term ty bt_id [] UNINITIALIZED None ts os) st2 t st'"
        unfolding unf by (intro nr) (simp add: new_term_value_def set_args_def set_optargs_def Let_def)
      with True num d 3 a b show ?thesis by (simp add: ty_def)
    qed
  qed
qed

lemma now_rewrite_stable: "now_rewrite res1 st1 t st' \<Longrightarrow> stable st1 st'"
  by (auto simp: now_rewrite_def split: if_splits dest: get_time_has)

lemma now_folded_stable: "now_folded v t s \<Longrightarrow> stable s s' \<Longrightarrow> now_folded v t s'"
  unfolding now_folded_def stable_def by (metis (full_types))

lemma term_at_set_optarg_name:
  assumes "term_at t p = Some u"
  shows "\<exists>u'. term_at (set_optarg_name k t) p = Some u' \<and> type u' = type u \<and> datum u' = datum u"
proof (cases p)
  case Nil
  with assms show ?thesis by (auto simp: set_optarg_name_def)
next
  case (Cons c q)
  with assms show ?thesis by (cases c) (auto simp: set_optarg_name_def split: if_splits)
qed

lemma now_folded_set_optarg_name:
  "now_folded v t s \<Longrightarrow> now_folded v (set_optarg_name k t) s"
  unfolding now_folded_def by (metis term_at_set_optarg_name)

lemma add_args_loop_ok:
  assumes "\<forall>x\<in>set xs. parse_ok to_datum x" and "add_args_loop to_datum xs i bt_reg bt_id st = Inr (ts, st')"
  shows "stable st st' \<and> length ts = length xs \<and> (\<forall>k<length xs. now_folded (xs ! k) (ts ! k) st')"
  using assms
proof (induction xs arbitrary: i st ts)
  case Nil
  then show ?case by simp
next
  case (Cons x xs)
  define child_bt where "child_bt = (if \<not> bt_reg then empty_bt else length (backtrace_registry st))"
  define st1 where "st1 = (if \<not> bt_reg then st
    else st\<lparr>backtrace_registry := backtrace_registry st @ [(bt_id, R_NUM (int i))]\<rparr>)"
  have s1: "stable st st1" by (simp add: st1_def)
  from Cons.prems(2) obtain t st2 ts' where
    p: "parse_internal to_datum x bt_reg child_bt st1 = Inr (t, st2)"
    and l: "add_args_loop to_datum xs (Suc i) bt_reg bt_id st2 = Inr (ts', st')"
    and ts: "ts = t # ts'"
    by (auto simp: new_frame_def child_bt_def st1_def split: if_splits sum.splits prod.splits)
  from Cons.prems(1) p have px: "stable st1 st2" "now_folded x t st2"
    by (auto simp: parse_ok_def)
  from Cons.IH [OF _ l] Cons.prems(1)
  have ih: "stable st2 st'" "length ts' = length xs"
    "\<forall>k<length xs. now_folded (xs ! k) (ts' ! k) st'" by auto
  have "now_folded x t st'" using px(2) ih(1) by (rule now_folded_stable)
  with ih ts show ?case
    using stable_trans [OF s1 stable_trans [OF px(1) ih(1)]]
    by (auto simp: nth_Cons split: nat.splits)
qed

lemma add_optargs_loop_ok:
  assumes "\<forall>m\<in>set ms. parse_ok to_datum (snd m)" and "add_optargs_loop to_datum ms bt_reg bt_id st = Inr (ts, st')"
  shows "stable st st' \<and> length ts = length ms
    \<and> (\<forall>k<length ms. now_folded (snd (ms ! k)) (ts ! k) st')"
  using assms
proof (induction ms arbitrary: st ts)
  case Nil
  then show ?case by simp
next
  case (Cons m ms)
  obtain name x where m: "m = (name, x)" by (cases m)
  define child_bt where "child_bt = (if \<not> bt_reg then empty_bt else length (backtrace_registry st))"
  define st1 where "st1 = (if \<not> bt_reg then st
    else st\<lparr>backtrace_registry := backtrace_registry st @ [(bt_id, R_STR name)]\<rparr>)"
  have s1: "stable st st1" by (simp add: st1_def)
  from Cons.prems(2) obtain t st2 ts' where
    p: "parse_internal to_datum x bt_reg child_bt st1 = Inr (t, st2)"
    and l: "add_optargs_loop to_datum ms bt_reg bt_id st2 = Inr (ts', st')"
    and ts: "ts = set_optarg_name name t # ts'"
    by (auto simp: m new_frame_def child_bt_def st1_def split: if_splits sum.splits prod.splits)
  from Cons.prems(1) p have px: "stable st1 st2" "now_folded x t st2"
    by (auto simp: parse_ok_def m)
  from Cons.IH [OF _ l] Cons.prems(1)
  have ih: "stable st2 st'" "length ts' = length ms"
    "\<forall>k<length ms. now_folded (snd (ms ! k)) (ts' ! k) st'" by auto
  have "now_folded x (set_optarg_name name t) st'"
    using px(2) ih(1) by (intro now_folded_set_optarg_name) (rule now_folded_stable)
  with ih ts show ?case
    using stable_trans [OF s1 stable_trans [OF px(1) ih(1)]]
    by (auto simp: m nth_Cons split: nat.splits)
qed

lemma size_in_elems: "x \<in> set (elems a) \<Longrightarrow> size x < size a"
  by (cases a) (auto simp: less_Suc_eq_le intro: size_list_estimation')

lemma size_in_members: "m \<in> set (members a) \<Longrightarrow> size (snd m) < size a"
proof (cases a)
  case (JObject ms)
  assume "m \<in> set (members a)"
  with JObject have "m \<in> set ms" by simp
  then have "size (snd m) \<le> size_list (size_prod (\<lambda>_. 0) size) ms"
    by (rule size_list_estimation') (cases m, simp)
  with JObject show ?thesis by simp
qed simp_all

lemma add_args_ok:
  assumes "\<forall>x\<in>set (elems a). parse_ok to_datum x" and "add_args to_datum a bt_reg bt_id st = Inr (ts, st')"
  shows "IsArray a \<and> stable st st' \<and> length ts = Size a
    \<and> (\<forall>k<Size a. now_folded (elem a k) (ts ! k) st')"
proof -
  from assms(2) obtain xs where a: "a = JArray xs"
    by (cases a) (auto simp: add_args.simps check_type_def split: if_splits)
  with assms(2) have l: "add_args_loop to_datum xs 0 bt_reg bt_id st = Inr (ts, st')"
    by (simp add: add_args.simps check_type_def)
  from add_args_loop_ok [OF _ l] assms(1) a show ?thesis by (simp add: IsArray_def)
qed

lemma add_optargs_ok:
  assumes "\<forall>m\<in>set (members a). parse_ok to_datum (snd m)" and "add_optargs to_datum a bt_reg bt_id st = Inr (ts, st')"
  shows "IsObject a \<and> stable st st' \<and> length ts = length (members a)
    \<and> (\<forall>k<length (members a). now_folded (snd (members a ! k)) (ts ! k) st')"
proof -
  from assms(2) obtain ms where a: "a = JObject ms"
    by (cases a) (auto simp: add_optargs.simps check_type_def split: if_splits)
  with assms(2) have l: "add_optargs_loop to_datum ms bt_reg bt_id st = Inr (ts, st')"
    by (simp add: add_optargs.simps check_type_def)
  from add_optargs_loop_ok [OF _ l] assms(1) a show ?thesis by (simp add: IsObject_def)
qed

lemma not_array_object: "IsArray v \<Longrightarrow> \<not> IsObject v"
  by (cases v) (auto simp: IsArray_def IsObject_def split: if_splits)

lemma nullary_now_type: "nullary_now v \<Longrightarrow> IsArray v \<and> GetInt (elem v 0) = NOW"
  by (simp add: nullary_now_def)

text \<open>The result of the check for a nullary NOW, on a call that is one and on one that is not.\<close>

lemma now_rewrite_folded:
  assumes nr: "now_rewrite (Raw_term ty bt_id [] UNINITIALIZED None ts os) st1 t st'"
    and root: "nullary_now v \<Longrightarrow> ty = NOW \<and> ts = [] \<and> os = []"
    and args: "\<And>i p w. json_at v (Arg i # p) = Some w \<Longrightarrow> nullary_now w \<Longrightarrow>
        \<exists>u. i < length ts \<and> term_at (ts ! i) p = Some u \<and> type u = DATUM
          \<and> datum u = start_time st1 \<and> has (start_time st1)"
    and optargs: "\<And>j p w. json_at v (Optarg j # p) = Some w \<Longrightarrow> nullary_now w \<Longrightarrow>
        \<exists>u. j < length os \<and> term_at (os ! j) p = Some u \<and> type u = DATUM
          \<and> datum u = start_time st1 \<and> has (start_time st1)"
  shows "now_folded v t st'"
  unfolding now_folded_def
proof (intro allI impI)
  fix p w
  assume a: "json_at v p = Some w \<and> nullary_now w"
  show "\<exists>u. term_at t p = Some u \<and> type u = DATUM \<and> datum u = start_time st'
      \<and> has (start_time st')"
  proof (cases "ty = NOW \<and> ts = [] \<and> os = []")
    case True
    with nr obtain now where g: "get_time st1 = (now, st')"
      and t: "t = Raw_term DATUM bt_id [] now None [] []"
      by (auto simp: now_rewrite_def)
    from get_time_has [OF g] have h: "has now" "start_time st' = now" by simp_all
    show ?thesis
    proof (cases p)
      case Nil
      with t h show ?thesis by simp
    next
      case (Cons c q)
      with a True args [of _ q w] optargs [of _ q w] show ?thesis by (cases c) auto
    qed
  next
    case False
    with nr have t: "t = Raw_term ty bt_id [] UNINITIALIZED None ts os" and s: "st' = st1"
      by (auto simp: now_rewrite_def)
    show ?thesis
    proof (cases p)
      case Nil
      with a root False show ?thesis by auto
    next
      case (Cons c q)
      with a t s args [of _ q w] optargs [of _ q w] show ?thesis by (cases c) auto
    qed
  qed
qed

lemma parse_ok_all: "parse_ok to_datum v"
proof (induction v rule: measure_induct_rule [of size])
  case (less v)
  show ?case
    unfolding parse_ok_def
  proof (intro allI impI)
    fix bt_reg bt_id st t st'
    assume a: "parse_internal to_datum v bt_reg bt_id st = Inr (t, st')"
    have ih_args: "IsArray v \<Longrightarrow> \<forall>x\<in>set (elems (elem v 1)). parse_ok to_datum x"
      using size_elem_less [of v 1] by (auto dest!: size_in_elems intro!: less.IH)
    have ih_optargs: "IsArray v \<Longrightarrow> \<forall>m\<in>set (members (elem v 2)). parse_ok to_datum (snd m)"
      using size_elem_less [of v 2] by (auto dest!: size_in_members intro!: less.IH)
    have ih_members: "\<forall>m\<in>set (members v). parse_ok to_datum (snd m)"
      by (auto dest!: size_in_members intro!: less.IH)
    note cases = parse_internal_Inr [OF a]
    consider
      (datum) d where "IsArray v" "GetInt (elem v 0) = DATUM"
        "t = Raw_term DATUM bt_id [] d None [] []" "st' = st"
    | (call1) "IsArray v" "IsNumber (elem v 0)" "GetInt (elem v 0) \<noteq> DATUM" "Size v = 1"
        "now_rewrite (Raw_term (GetInt (elem v 0)) bt_id [] UNINITIALIZED None [] []) st t st'"
    | (call2) ts st1 where "IsArray v" "IsNumber (elem v 0)" "GetInt (elem v 0) \<noteq> DATUM" "Size v = 2"
        "add_args to_datum (elem v 1) bt_reg bt_id st = Inr (ts, st1)"
        "now_rewrite (Raw_term (GetInt (elem v 0)) bt_id [] UNINITIALIZED None ts []) st1 t st'"
    | (call3) ts st1 os st2 where "IsArray v" "IsNumber (elem v 0)" "GetInt (elem v 0) \<noteq> DATUM"
        "Size v = 3"
        "add_args to_datum (elem v 1) bt_reg bt_id st = Inr (ts, st1)"
        "add_optargs to_datum (elem v 2) bt_reg bt_id st1 = Inr (os, st2)"
        "now_rewrite (Raw_term (GetInt (elem v 0)) bt_id [] UNINITIALIZED None ts os) st2 t st'"
    | (object) os where "\<not> IsArray v" "IsObject v" "add_optargs to_datum v bt_reg bt_id st = Inr (os, st')"
        "t = Raw_term MAKE_OBJ bt_id [] UNINITIALIZED None [] os"
    | (scalar) "\<not> IsArray v" "\<not> IsObject v" "st' = st"
      using cases by blast
    then show "stable st st' \<and> now_folded v t st'"
    proof cases
      case datum
      have "now_folded v t st'"
        unfolding now_folded_def
      proof (intro allI impI)
        fix p w
        assume b: "json_at v p = Some w \<and> nullary_now w"
        show "\<exists>u. term_at t p = Some u \<and> type u = DATUM \<and> datum u = start_time st'
          \<and> has (start_time st')"
        proof (cases p)
          case Nil
          with b datum nullary_now_type [of v] show ?thesis by (simp add: DATUM_def NOW_def)
        next
          case (Cons c q)
          with b datum not_array_object [of v] show ?thesis by (cases c) auto
        qed
      qed
      with datum show ?thesis by simp
    next
      case call1
      have "now_folded v t st'"
      proof (rule now_rewrite_folded [OF call1(5)])
        assume "nullary_now v"
        then show "GetInt (elem v 0) = NOW \<and> [] = [] \<and> [] = ([] :: raw_term_t list)"
          by (simp add: nullary_now_type)
      next
        fix i p w
        assume "json_at v (Arg i # p) = Some w"
        with call1 show "\<exists>u. i < length [] \<and> term_at ([] ! i) p = Some u \<and> type u = DATUM
          \<and> datum u = start_time st \<and> has (start_time st)" by simp
      next
        fix j p w
        assume "json_at v (Optarg j # p) = Some w"
        with call1 not_array_object [of v]
        show "\<exists>u. j < length [] \<and> term_at ([] ! j) p = Some u \<and> type u = DATUM
          \<and> datum u = start_time st \<and> has (start_time st)" by simp
      qed
      with now_rewrite_stable [OF call1(5)] show ?thesis by simp
    next
      case call2
      from add_args_ok [OF ih_args [OF call2(1)] call2(5)]
      have ar: "IsArray (elem v 1)" "stable st st1" "length ts = Size (elem v 1)"
        "\<forall>k<Size (elem v 1). now_folded (elem (elem v 1) k) (ts ! k) st1" by simp_all
      have "now_folded v t st'"
      proof (rule now_rewrite_folded [OF call2(6)])
        assume "nullary_now v"
        with call2(4) ar(3) show "GetInt (elem v 0) = NOW \<and> ts = [] \<and> [] = ([] :: raw_term_t list)"
          by (simp add: nullary_now_def)
      next
        fix i p w
        assume "json_at v (Arg i # p) = Some w" and "nullary_now w"
        with call2 ar show "\<exists>u. i < length ts \<and> term_at (ts ! i) p = Some u \<and> type u = DATUM
          \<and> datum u = start_time st1 \<and> has (start_time st1)"
          by (auto simp: now_folded_def split: if_splits)
      next
        fix j p w
        assume "json_at v (Optarg j # p) = Some w"
        with call2 not_array_object [of v]
        show "\<exists>u. j < length [] \<and> term_at ([] ! j) p = Some u \<and> type u = DATUM
          \<and> datum u = start_time st1 \<and> has (start_time st1)" by simp
      qed
      with stable_trans [OF ar(2) now_rewrite_stable [OF call2(6)]] show ?thesis by simp
    next
      case call3
      from add_args_ok [OF ih_args [OF call3(1)] call3(5)]
      have ar: "IsArray (elem v 1)" "stable st st1" "length ts = Size (elem v 1)"
        "\<forall>k<Size (elem v 1). now_folded (elem (elem v 1) k) (ts ! k) st1" by simp_all
      from add_optargs_ok [OF ih_optargs [OF call3(1)] call3(6)]
      have oa: "IsObject (elem v 2)" "stable st1 st2" "length os = length (members (elem v 2))"
        "\<forall>k<length (members (elem v 2)). now_folded (snd (members (elem v 2) ! k)) (os ! k) st2"
        by simp_all
      have ar2: "\<forall>k<Size (elem v 1). now_folded (elem (elem v 1) k) (ts ! k) st2"
        using ar(4) oa(2) by (auto intro: now_folded_stable)
      have "now_folded v t st'"
      proof (rule now_rewrite_folded [OF call3(7)])
        assume "nullary_now v"
        with call3(4) ar(3) oa(3) show "GetInt (elem v 0) = NOW \<and> ts = [] \<and> os = []"
          by (simp add: nullary_now_def)
      next
        fix i p w
        assume "json_at v (Arg i # p) = Some w" and "nullary_now w"
        with call3 ar ar2 show "\<exists>u. i < length ts \<and> term_at (ts ! i) p = Some u \<and> type u = DATUM
          \<and> datum u = start_time st2 \<and> has (start_time st2)"
          by (auto simp: now_folded_def split: if_splits)
      next
        fix j p w
        assume "json_at v (Optarg j # p) = Some w" and "nullary_now w"
        with call3 oa not_array_object [of v]
        show "\<exists>u. j < length os \<and> term_at (os ! j) p = Some u \<and> type u = DATUM
          \<and> datum u = start_time st2 \<and> has (start_time st2)"
          by (auto simp: now_folded_def split: if_splits)
      qed
      with stable_trans [OF ar(2) stable_trans [OF oa(2) now_rewrite_stable [OF call3(7)]]]
      show ?thesis by simp
    next
      case object
      from add_optargs_ok [OF ih_members object(3)]
      have oa: "stable st st'" "length os = length (members v)"
        "\<forall>k<length (members v). now_folded (snd (members v ! k)) (os ! k) st'"
        by simp_all
      have "now_folded v t st'"
        unfolding now_folded_def
      proof (intro allI impI)
        fix p w
        assume b: "json_at v p = Some w \<and> nullary_now w"
        show "\<exists>u. term_at t p = Some u \<and> type u = DATUM \<and> datum u = start_time st'
          \<and> has (start_time st')"
        proof (cases p)
          case Nil
          with b object nullary_now_type [of v] show ?thesis by simp
        next
          case (Cons c q)
          with b object oa show ?thesis
            by (cases c) (auto simp: now_folded_def split: if_splits)
        qed
      qed
      with oa show ?thesis by simp
    next
      case scalar
      have "now_folded v t st'"
        unfolding now_folded_def
      proof (intro allI impI)
        fix p w
        assume b: "json_at v p = Some w \<and> nullary_now w"
        show "\<exists>u. term_at t p = Some u \<and> type u = DATUM \<and> datum u = start_time st'
          \<and> has (start_time st')"
        proof (cases p)
          case Nil
          with b scalar nullary_now_type [of v] show ?thesis by simp
        next
          case (Cons c q)
          with b scalar show ?thesis by (cases c) auto
        qed
      qed
      with scalar show ?thesis by simp
    qed
  qed
qed

lemma nullary_now_shape:
  assumes "nullary_now w"
  shows "w = JArray [JNumber NOW] \<or> w = JArray [JNumber NOW, JArray []]
    \<or> w = JArray [JNumber NOW, JArray [], JObject []]"
proof -
  from assms obtain xs where w: "w = JArray xs"
    by (cases w) (auto simp: nullary_now_def IsArray_def split: if_splits)
  from assms w have "length xs = 1 \<or> length xs = 2 \<or> length xs = 3"
    by (simp add: nullary_now_def)
  then consider a where "xs = [a]" | a b where "xs = [a, b]" | a b c where "xs = [a, b, c]"
    by (cases xs; cases "tl xs"; cases "tl (tl xs)"; cases "tl (tl (tl xs))") auto
  then show ?thesis using assms w by cases (auto simp: nullary_now_def)
qed

lemma parse_internal_nullary_now:
  assumes "nullary_now w"
  shows "parse_internal to_datum w bt_reg bt_id st =
    (case get_time st of (now, st1) \<Rightarrow> Inr (Raw_term DATUM bt_id [] now None [] [], st1))"
  using nullary_now_shape [OF assms]
  by (auto simp: parse_internal.simps add_args.simps add_optargs.simps IsArray_def
      check_term_size_def check_type_def new_term_value_def set_args_def set_optargs_def
      set_datum_def set_type_def num_args_def num_optargs_def args_def optargs_def
      NOW_def DATUM_def REFERENCE_def split: prod.splits)

text \<open>
  C6. When \<open>parse_internal\<close> returns, at every position of the JSON term that holds a
  nullary call of \<open>NOW\<close> the parsed term has a \<open>DATUM\<close> whose datum is the start time
  cached in the storage; so all of them carry the same datum, and \<open>get_time\<close> after the
  parse returns that datum and leaves the storage as it is. A start time that was
  cached before the parse is still the cached one after it. Parsing a nullary call of
  \<open>NOW\<close> itself gives the \<open>DATUM\<close> with the value of \<open>get_time\<close>.
\<close>

theorem now_is_start_time:
  assumes "parse_internal to_datum v bt_reg bt_id st = Inr (t, st')"
    and "json_at v p = Some w" and "nullary_now w"
  shows "(\<exists>u. term_at t p = Some u \<and> type u = DATUM \<and> datum u = start_time st'
            \<and> get_time st' = (datum u, st'))
       \<and> (if has (start_time st) then start_time st' = start_time st else True)
       \<and> parse_internal to_datum w bt_reg bt_id st =
           (case get_time st of (now, st1) \<Rightarrow> Inr (Raw_term DATUM bt_id [] now None [] [], st1))"
proof -
  from parse_ok_all [of to_datum v] assms(1) have s: "stable st st'" and f: "now_folded v t st'"
    by (auto simp: parse_ok_def)
  from f assms(2,3) obtain u where u: "term_at t p = Some u" "type u = DATUM"
    "datum u = start_time st'" "has (start_time st')"
    by (auto simp: now_folded_def)
  from u(4) have "get_time st' = (start_time st', st')" by (simp add: get_time_def)
  with u s parse_internal_nullary_now [OF assms(3)] show ?thesis
    by (simp add: stable_def)
qed

lemma parse_internal_now_scenario:
  "parse_internal (sample_to_datum [])
     (JArray [JNumber 64, JArray [JArray [JNumber NOW], JArray [JNumber NOW]]]) True 0
     \<lparr>backtrace_registry = [(0, R_NULL)], global_optarg_list = [], start_time = UNINITIALIZED,
      clock = (\<lambda>k. 1000 + int k), clock_reads = 0\<rparr>
   = Inr (Raw_term 64 0 [] UNINITIALIZED None
            [Raw_term DATUM 1 []
               (R_OBJECT [(''$reql_type$'', R_STR ''TIME''), (''epoch_time'', R_NUM 1000)]) None [] [],
             Raw_term DATUM 2 []
               (R_OBJECT [(''$reql_type$'', R_STR ''TIME''), (''epoch_time'', R_NUM 1000)]) None [] []]
            [],
          \<lparr>backtrace_registry = [(0, R_NULL), (0, R_NUM 0), (0, R_NUM 1)],
           global_optarg_list = [],
           start_time = R_OBJECT [(''$reql_type$'', R_STR ''TIME''), (''epoch_time'', R_NUM 1000)],
           clock = (\<lambda>k. 1000 + int k), clock_reads = 1\<rparr>)"
  by (simp add: parse_internal.simps add_args.simps IsArray_def check_term_size_def check_type_def
      new_term_value_def set_args_def set_datum_def set_type_def num_args_def num_optargs_def
      args_def optargs_def new_frame_def get_time_def time_now_def
      NOW_def DATUM_def REFERENCE_def)

theorem now_is_start_time_witness:
  "parse_internal (sample_to_datum [])
     (JArray [JNumber 64, JArray [JArray [JNumber NOW], JArray [JNumber NOW]]]) True 0
     \<lparr>backtrace_registry = [(0, R_NULL)], global_optarg_list = [], start_time = UNINITIALIZED,
      clock = (\<lambda>k. 1000 + int k), clock_reads = 0\<rparr>
   = Inr (Raw_term 64 0 [] UNINITIALIZED None
            [Raw_term DATUM 1 []
               (R_OBJECT [(''$reql_type$'', R_STR ''TIME''), (''epoch_time'', R_NUM 1000)]) None [] [],
             Raw_term DATUM 2 []
               (R_OBJECT [(''$reql_type$'', R_STR ''TIME''), (''epoch_time'', R_NUM 1000)]) None [] []]
            [],
          \<lparr>backtrace_registry = [(0, R_NULL), (0, R_NUM 0), (0, R_NUM 1)],
           global_optarg_list = [],
           start_time = R_OBJECT [(''$reql_type$'', R_STR ''TIME''), (''epoch_time'', R_NUM 1000)],
           clock = (\<lambda>k. 1000 + int k), clock_reads = 1\<rparr>)
   \<and> json_at (JArray [JNumber 64, JArray [JArray [JNumber NOW], JArray [JNumber NOW]]]) [Arg 1]
      = Some (JArray [JNumber NOW])
   \<and> nullary_now (JArray [JNumber NOW])
   \<and> get_time
        \<lparr>backtrace_registry = [(0, R_NULL), (0, R_NUM 0), (0, R_NUM 1)],
         global_optarg_list = [],
         start_time = R_OBJECT [(''$reql_type$'', R_STR ''TIME''), (''epoch_time'', R_NUM 1000)],
         clock = (\<lambda>k. 1000 + int k), clock_reads = 1\<rparr>
      = (R_OBJECT [(''$reql_type$'', R_STR ''TIME''), (''epoch_time'', R_NUM 1000)],
         \<lparr>backtrace_registry = [(0, R_NULL), (0, R_NUM 0), (0, R_NUM 1)],
          global_optarg_list = [],
          start_time = R_OBJECT [(''$reql_type$'', R_STR ''TIME''), (''epoch_time'', R_NUM 1000)],
          clock = (\<lambda>k. 1000 + int k), clock_reads = 1\<rparr>)"
proof -
  have j: "json_at (JArray [JNumber 64, JArray [JArray [JNumber NOW], JArray [JNumber NOW]]]) [Arg 1]
      = Some (JArray [JNumber NOW])"
    by (simp add: IsArray_def DATUM_def)
  have n: "nullary_now (JArray [JNumber NOW])"
    by (simp add: nullary_now_def IsArray_def)
  from now_is_start_time [OF parse_internal_now_scenario j n, THEN conjunct1] j n
  show ?thesis
    by (simp only: parse_internal_now_scenario) simp
qed

section \<open>Properties of the global optargs\<close>

lemma parse_internal_stable:
  "parse_internal to_datum v bt_reg bt_id st = Inr (t, st') \<Longrightarrow> stable st st'"
  using parse_ok_all [of to_datum v] by (simp add: parse_ok_def)

lemma set_tail_optarg_name_snoc [simp]:
  "set_tail_optarg_name key (ts @ [f]) = ts @ [set_optarg_name key f]"
  by (simp add: set_tail_optarg_name_def)

lemma add_global_optargs_loop_list:
  "add_global_optargs_loop to_datum r ms has_db st = Inr (has_db', st') \<Longrightarrow>
     (has_db' \<longleftrightarrow> has_db \<or> ''db'' \<in> set (map fst ms))
     \<and> (\<exists>fs. global_optarg_list st' = global_optarg_list st @ fs
           \<and> list_all2 (\<lambda>(key, v) f. \<exists>s s' t e g. parse_internal to_datum v False empty_bt s = Inr (t, s')
                  \<and> r_expr r t = Inr e \<and> r_fun r e = Inr g \<and> f = set_optarg_name key g) ms fs)"
proof (induction ms arbitrary: has_db st)
  case Nil
  then show ?case by simp
next
  case (Cons m ms)
  obtain key v where m: "m = (key, v)" by (cases m)
  from Cons.prems obtain t st1 e g where
    p: "parse_internal to_datum v False empty_bt st = Inr (t, st1)"
    and e: "r_expr r t = Inr e" and g: "r_fun r e = Inr g"
    and l: "add_global_optargs_loop to_datum r ms (if key = ''db'' then True else has_db)
        (st1\<lparr>global_optarg_list := global_optarg_list st1 @ [set_optarg_name key g]\<rparr>)
        = Inr (has_db', st')"
    by (auto simp: m Let_def split: sum.splits prod.splits)
  from parse_internal_stable [OF p] have k: "global_optarg_list st1 = global_optarg_list st"
    by (simp add: stable_def)
  from Cons.IH [OF l] obtain fs where
    h: "has_db' \<longleftrightarrow> (if key = ''db'' then True else has_db) \<or> ''db'' \<in> set (map fst ms)"
    and fs: "global_optarg_list st' = (global_optarg_list st1 @ [set_optarg_name key g]) @ fs"
    and a: "list_all2 (\<lambda>(key, v) f. \<exists>s s' t e g. parse_internal to_datum v False empty_bt s = Inr (t, s')
                  \<and> r_expr r t = Inr e \<and> r_fun r e = Inr g \<and> f = set_optarg_name key g) ms fs"
    by auto
  have "list_all2 (\<lambda>(key, v) f. \<exists>s s' t e g. parse_internal to_datum v False empty_bt s = Inr (t, s')
                  \<and> r_expr r t = Inr e \<and> r_fun r e = Inr g \<and> f = set_optarg_name key g)
          (m # ms) (set_optarg_name key g # fs)"
    using a p e g by (simp add: m) blast
  moreover have "global_optarg_list st' = global_optarg_list st @ set_optarg_name key g # fs"
    using fs k by simp
  ultimately show ?case using h by (auto simp: m)
qed

text \<open>
  C8. When \<open>add_global_optargs\<close> returns, its argument is an object and the list of
  global optargs has grown at its end by one term for each member of the object, in
  order: the term that \<open>r.fun(r.expr(term))\<close> builds from the parsed value of the
  member, with the member's key as its optarg name. After these comes nothing when a
  member has the key \<open>db\<close>, and otherwise exactly one more term: the one that
  \<open>r.fun(r.db("test"))\<close> builds, with the optarg name \<open>db\<close>.
\<close>

theorem global_optargs_wrapped:
  assumes "add_global_optargs to_datum r optargs_json st = Inr st'"
  shows "IsObject optargs_json
    \<and> (\<exists>fs dflt. global_optarg_list st' = global_optarg_list st @ fs @ dflt
          \<and> list_all2 (\<lambda>(key, v) f. \<exists>s s' t e g. parse_internal to_datum v False empty_bt s = Inr (t, s')
                  \<and> r_expr r t = Inr e \<and> r_fun r e = Inr g \<and> f = set_optarg_name key g)
               (members optargs_json) fs
          \<and> (if ''db'' \<in> set (map fst (members optargs_json)) then dflt = []
              else \<exists>d g. r_db r ''test'' = Inr d \<and> r_fun r d = Inr g
                     \<and> dflt = [set_optarg_name ''db'' g]))"
proof -
  from assms have o: "IsObject optargs_json"
    by (auto simp: add_global_optargs_def check_type_def IsObject_def split: if_splits)
  from assms obtain has_db st1 where
    l: "add_global_optargs_loop to_datum r (members optargs_json) False st = Inr (has_db, st1)"
    by (auto simp: add_global_optargs_def split: sum.splits)
  from add_global_optargs_loop_list [OF l] obtain fs where
    h: "has_db \<longleftrightarrow> ''db'' \<in> set (map fst (members optargs_json))"
    and fs: "global_optarg_list st1 = global_optarg_list st @ fs"
    and a: "list_all2 (\<lambda>(key, v) f. \<exists>s s' t e g. parse_internal to_datum v False empty_bt s = Inr (t, s')
                  \<and> r_expr r t = Inr e \<and> r_fun r e = Inr g \<and> f = set_optarg_name key g)
               (members optargs_json) fs"
    by auto
  show ?thesis
  proof (cases has_db)
    case True
    with assms l have "st' = st1" by (simp add: add_global_optargs_def split: sum.splits)
    with True h fs a o show ?thesis by auto
  next
    case False
    with assms l obtain d g where d: "r_db r ''test'' = Inr d" and g: "r_fun r d = Inr g"
      and s: "st' = st1\<lparr>global_optarg_list := global_optarg_list st1 @ [set_optarg_name ''db'' g]\<rparr>"
      by (auto simp: add_global_optargs_def split: sum.splits)
    from False h have n: "''db'' \<notin> set (map fst (members optargs_json))" by simp
    have "global_optarg_list st' = global_optarg_list st @ fs @ [set_optarg_name ''db'' g]"
      using s fs by simp
    with a d g n o show ?thesis by (intro conjI exI [of _ fs] exI [of _ "[set_optarg_name ''db'' g]"]) auto
  qed
qed


lemma add_global_optargs_scenario:
  "add_global_optargs (sample_to_datum []) sample_minidriver
     (JObject [(''profile'', JArray [JNumber 1, JBool True])])
     \<lparr>backtrace_registry = [(0, R_NULL)], global_optarg_list = [], start_time = UNINITIALIZED,
      clock = (\<lambda>k. 1000 + int k), clock_reads = 0\<rparr>
   = Inr \<lparr>backtrace_registry = [(0, R_NULL)],
          global_optarg_list =
            [Raw_term 69 0 ''profile'' UNINITIALIZED None
               [Raw_term 2 0 [] UNINITIALIZED None [] [],
                Raw_term REFERENCE 0 [] UNINITIALIZED
                  (Some (Raw_term DATUM 0 [] (R_BOOL True) None [] [])) [] []] [],
             Raw_term 69 0 ''db'' UNINITIALIZED None
               [Raw_term 2 0 [] UNINITIALIZED None [] [],
                Raw_term 14 0 [] UNINITIALIZED None
                  [Raw_term DATUM 0 [] (R_STR ''test'') None [] []] []] []],
          start_time = UNINITIALIZED, clock = (\<lambda>k. 1000 + int k), clock_reads = 0\<rparr>"
  by (simp add: add_global_optargs_def sample_minidriver_def parse_internal.simps check_type_def
      check_term_size_def IsArray_def new_term_value_def set_datum_def set_optarg_name_def
      sample_to_datum_def empty_bt_def DATUM_def NOW_def)

theorem global_optargs_wrapped_witness:
  "add_global_optargs (sample_to_datum []) sample_minidriver
     (JObject [(''profile'', JArray [JNumber 1, JBool True])])
     \<lparr>backtrace_registry = [(0, R_NULL)], global_optarg_list = [], start_time = UNINITIALIZED,
      clock = (\<lambda>k. 1000 + int k), clock_reads = 0\<rparr>
   = Inr \<lparr>backtrace_registry = [(0, R_NULL)],
          global_optarg_list =
            [Raw_term 69 0 ''profile'' UNINITIALIZED None
               [Raw_term 2 0 [] UNINITIALIZED None [] [],
                Raw_term REFERENCE 0 [] UNINITIALIZED
                  (Some (Raw_term DATUM 0 [] (R_BOOL True) None [] [])) [] []] [],
             Raw_term 69 0 ''db'' UNINITIALIZED None
               [Raw_term 2 0 [] UNINITIALIZED None [] [],
                Raw_term 14 0 [] UNINITIALIZED None
                  [Raw_term DATUM 0 [] (R_STR ''test'') None [] []] []] []],
          start_time = UNINITIALIZED, clock = (\<lambda>k. 1000 + int k), clock_reads = 0\<rparr>
   \<and> IsObject (JObject [(''profile'', JArray [JNumber 1, JBool True])])"
  using global_optargs_wrapped [OF add_global_optargs_scenario, THEN conjunct1]
  by (simp only: add_global_optargs_scenario)

section \<open>Properties of the latest codec\<close>

lemma set_args_simps [simp]:
  "args_list (set_args ts t) = ts" "optargs_list (set_args ts t) = optargs_list t"
  "set_args ts (set_args ts' t) = set_args ts t" "type (set_args ts t) = type t"
  by (simp_all add: set_args_def)

lemma set_optargs_simps [simp]:
  "optargs_list (set_optargs ts t) = ts" "args_list (set_optargs ts t) = args_list t"
  "set_optargs ts (set_optargs ts' t) = set_optargs ts t" "type (set_optargs ts t) = type t"
  by (simp_all add: set_optargs_def)

lemma set_args_id [simp]: "set_args (args_list t) t = t"
  by (cases t) (simp add: set_args_def)

lemma set_optargs_id [simp]: "set_optargs (optargs_list t) t = t"
  by (cases t) (simp add: set_optargs_def)

lemma next_item_no_references: "no_references c \<Longrightarrow> next_item c = Some c"
  by (cases c) (simp add: next_item_def)

lemma serialize_args_round_trip:
  assumes "\<forall>c\<in>set items. no_references c \<and> round_trips c"
  shows "\<exists>w. serialize_args items n = Inr (w, n - length items)
    \<and> (\<forall>i tm rest. deserialize_args i (i + length items) tm (w @ rest)
          = Inr (set_args (args_list tm @ map on_wire items) tm, rest))"
  using assms
proof (induction items arbitrary: n)
  case Nil
  show ?case by (simp add: deserialize_args.simps)
next
  case (Cons c cs)
  from Cons.prems obtain wc where
    sc: "serialize_term_tree c = Inr wc"
    and dc: "\<And>rest. deserialize_term_tree (wc @ rest) = Inr (on_wire c, rest)"
    and nc: "next_item c = Some c"
    by (auto simp: round_trips_def next_item_no_references)
  from Cons.IH [of "n - 1"] Cons.prems obtain ws where
    ss: "serialize_args cs (n - 1) = Inr (ws, n - 1 - length cs)"
    and ds: "\<And>i tm rest. deserialize_args i (i + length cs) tm (ws @ rest)
          = Inr (set_args (args_list tm @ map on_wire cs) tm, rest)"
    by auto
  have "serialize_args (c # cs) n = Inr (wc @ ws, n - length (c # cs))"
    using sc ss nc by simp
  moreover have "deserialize_args i (i + length (c # cs)) tm ((wc @ ws) @ rest)
          = Inr (set_args (args_list tm @ map on_wire (c # cs)) tm, rest)" for i tm rest
    using dc [of "ws @ rest"] ds [of "Suc i" "set_args (args_list tm @ [on_wire c]) tm" rest]
    by (subst deserialize_args.simps) simp
  ultimately show ?case by blast
qed

lemma serialize_optargs_round_trip:
  assumes "\<forall>c\<in>set items. no_references c \<and> round_trips c"
  shows "\<exists>w. serialize_optargs items n = Inr (w, n - length items)
    \<and> (\<forall>i tm rest. deserialize_optargs i (i + length items) tm (w @ rest)
          = Inr (set_optargs (optargs_list tm
                   @ map (\<lambda>c. set_optarg_name (optarg_name c) (on_wire c)) items) tm, rest))"
  using assms
proof (induction items arbitrary: n)
  case Nil
  show ?case by (simp add: deserialize_optargs.simps)
next
  case (Cons c cs)
  from Cons.prems obtain wc where
    sc: "serialize_term_tree c = Inr wc"
    and dc: "\<And>rest. deserialize_term_tree (wc @ rest) = Inr (on_wire c, rest)"
    and nc: "next_item c = Some c"
    by (auto simp: round_trips_def next_item_no_references)
  from Cons.IH [of "n - 1"] Cons.prems obtain ws where
    ss: "serialize_optargs cs (n - 1) = Inr (ws, n - 1 - length cs)"
    and ds: "\<And>i tm rest. deserialize_optargs i (i + length cs) tm (ws @ rest)
          = Inr (set_optargs (optargs_list tm
                   @ map (\<lambda>c. set_optarg_name (optarg_name c) (on_wire c)) cs) tm, rest)"
    by auto
  have "serialize_optargs (c # cs) n = Inr (W_string (optarg_name c) # wc @ ws, n - length (c # cs))"
    using sc ss nc by simp
  moreover have "deserialize_optargs i (i + length (c # cs)) tm
            ((W_string (optarg_name c) # wc @ ws) @ rest)
          = Inr (set_optargs (optargs_list tm
                   @ map (\<lambda>c. set_optarg_name (optarg_name c) (on_wire c)) (c # cs)) tm, rest)"
    for i tm rest
    using dc [of "ws @ rest"]
      ds [of "Suc i" "set_optargs (optargs_list tm @ [set_optarg_name (optarg_name c) (on_wire c)]) tm" rest]
    by (subst deserialize_optargs.simps) simp
  ultimately show ?case by blast
qed

lemma size_in_args_list:
  assumes "c \<in> set (args_list t)"
  shows "size c < size t"
proof -
  from assms have "size c \<le> size_list size (args_list t)"
    by (rule size_list_estimation') simp
  with size_args_list [of t] show ?thesis by simp
qed

lemma size_in_optargs_list:
  assumes "c \<in> set (optargs_list t)"
  shows "size c < size t"
proof -
  from assms have "size c \<le> size_list size (optargs_list t)"
    by (rule size_list_estimation') simp
  with size_optargs_list [of t] show ?thesis by simp
qed

lemma no_references_round_trips: "no_references t \<Longrightarrow> round_trips t"
proof (induction t rule: measure_induct_rule [of size])
  case (less t)
  obtain ty bt_id name d s ts os where t: "t = Raw_term ty bt_id name d s ts os" by (cases t)
  from less.prems t have ty: "ty \<noteq> REFERENCE"
    and nts: "\<forall>c\<in>set ts. no_references c" and nos: "\<forall>c\<in>set os. no_references c"
    by (simp_all add: list_all_iff)
  show ?case
  proof (cases "ty = DATUM")
    case True
    then show ?thesis
      by (simp add: round_trips_def t serialize_term_tree.simps deserialize_term_tree.simps
          new_term_value_def set_datum_def)
  next
    case False
    have "\<forall>c\<in>set ts. no_references c \<and> round_trips c"
      using nts size_in_args_list [of _ t] less.IH by (auto simp: t)
    from serialize_args_round_trip [OF this, of "length ts"] obtain w1 where
      s1: "serialize_args ts (length ts) = Inr (w1, 0)"
      and d1: "\<And>i tm rest. deserialize_args i (i + length ts) tm (w1 @ rest)
          = Inr (set_args (args_list tm @ map on_wire ts) tm, rest)"
      by auto
    have "\<forall>c\<in>set os. no_references c \<and> round_trips c"
      using nos size_in_optargs_list [of _ t] less.IH by (auto simp: t)
    from serialize_optargs_round_trip [OF this, of "length os"] obtain w2 where
      s2: "serialize_optargs os (length os) = Inr (w2, 0)"
      and d2: "\<And>i tm rest. deserialize_optargs i (i + length os) tm (w2 @ rest)
          = Inr (set_optargs (optargs_list tm
                   @ map (\<lambda>c. set_optarg_name (optarg_name c) (on_wire c)) os) tm, rest)"
      by auto
    have ser: "serialize_term_tree t =
        Inr ([W_int32 ty, W_backtrace_id bt_id, W_size (length ts)] @ w1 @ [W_size (length os)] @ w2)"
      using False ty s1 s2
      by (simp add: t serialize_term_tree.simps num_args_def num_optargs_def args_def optargs_def)
    have "deserialize_term_tree
        (([W_int32 ty, W_backtrace_id bt_id, W_size (length ts)] @ w1 @ [W_size (length os)] @ w2) @ rest)
        = Inr (on_wire t, rest)" for rest
      using False d1 [of 0 "new_term_value ty bt_id" "W_size (length os) # w2 @ rest"]
        d2 [of 0 "set_args (map on_wire ts) (new_term_value ty bt_id)" rest]
      by (simp add: t deserialize_term_tree.simps new_term_value_def set_args_def set_optargs_def)
    with ser show ?thesis by (simp add: round_trips_def)
  qed
qed

lemma struct_eq_set_optarg_name [simp]:
  "struct_eq a (set_optarg_name k b) = struct_eq a b"
  by (cases a) (simp add: set_optarg_name_def)

lemma on_wire_type_bt [simp]: "type (on_wire t) = type t" "bt (on_wire t) = bt t"
  by (cases t, simp)+

lemma struct_eq_on_wire: "struct_eq t (on_wire t)"
proof (induction t rule: measure_induct_rule [of size])
  case (less t)
  obtain ty bt_id name d s ts os where t: "t = Raw_term ty bt_id name d s ts os" by (cases t)
  have "\<forall>c\<in>set ts. struct_eq c (on_wire c)"
    using size_in_args_list [of _ t] less.IH by (auto simp: t)
  then have a: "list_all2 struct_eq ts (map on_wire ts)"
    by (simp add: list_all2_map2 list_all2_same)
  have "\<forall>c\<in>set os. struct_eq c (on_wire c)"
    using size_in_optargs_list [of _ t] less.IH by (auto simp: t)
  then have "list_all2 (\<lambda>c c'. optarg_name c = optarg_name c' \<and> struct_eq c c') os
      (map (\<lambda>c. set_optarg_name (optarg_name c) (on_wire c)) os)"
    by (simp add: list_all2_map2 list_all2_same)
  with a show ?case by (simp add: t)
qed

text \<open>
  C2. A term tree without \<open>REFERENCE\<close> nodes is serialised without error by the latest
  codec, and deserialising what was written (whatever follows it in the stream)
  succeeds, takes exactly what was written off the stream, and gives a tree
  structurally identical to the one serialised: the same term type and backtrace id at
  every position, the same datum at every \<open>DATUM\<close>, the same arguments and optargs in
  the same order, each optarg under the same name.
\<close>

theorem latest_codec_round_trip:
  assumes "no_references t"
  shows "\<exists>w t'. serialize_term_tree t = Inr w
           \<and> deserialize_term_tree (w @ rest) = Inr (t', rest) \<and> struct_eq t t'"
proof -
  from no_references_round_trips [OF assms] obtain w where
    "serialize_term_tree t = Inr w" "deserialize_term_tree (w @ rest) = Inr (on_wire t, rest)"
    by (auto simp: round_trips_def)
  with struct_eq_on_wire [of t] show ?thesis by blast
qed

lemma serialize_scenario:
  "serialize_term_tree
     (Raw_term 5 0 [] UNINITIALIZED None [Raw_term DATUM 1 [] (R_NUM 3) None [] []]
        [Raw_term DATUM 2 ''k'' (R_NUM 5) None [] []])
   = Inr [W_int32 5, W_backtrace_id 0, W_size 1, W_int32 DATUM, W_backtrace_id 1, W_datum (R_NUM 3),
          W_size 1, W_string ''k'', W_int32 DATUM, W_backtrace_id 2, W_datum (R_NUM 5)]"
  by (simp add: serialize_term_tree.simps next_item_def num_args_def num_optargs_def args_def
      optargs_def DATUM_def REFERENCE_def)

lemma deserialize_scenario:
  "deserialize_term_tree
     [W_int32 5, W_backtrace_id 0, W_size 1, W_int32 DATUM, W_backtrace_id 1, W_datum (R_NUM 3),
      W_size 1, W_string ''k'', W_int32 DATUM, W_backtrace_id 2, W_datum (R_NUM 5)]
   = Inr (Raw_term 5 0 [] UNINITIALIZED None [Raw_term DATUM 1 [] (R_NUM 3) None [] []]
            [Raw_term DATUM 2 ''k'' (R_NUM 5) None [] []], [])"
  by (simp add: deserialize_term_tree.simps deserialize_args.simps deserialize_optargs.simps
      new_term_value_def set_datum_def set_args_def set_optargs_def set_optarg_name_def DATUM_def)

theorem latest_codec_round_trip_witness:
  "no_references
     (Raw_term 5 0 [] UNINITIALIZED None [Raw_term DATUM 1 [] (R_NUM 3) None [] []]
        [Raw_term DATUM 2 ''k'' (R_NUM 5) None [] []])
   \<and> serialize_term_tree
     (Raw_term 5 0 [] UNINITIALIZED None [Raw_term DATUM 1 [] (R_NUM 3) None [] []]
        [Raw_term DATUM 2 ''k'' (R_NUM 5) None [] []])
     = Inr [W_int32 5, W_backtrace_id 0, W_size 1, W_int32 DATUM, W_backtrace_id 1, W_datum (R_NUM 3),
          W_size 1, W_string ''k'', W_int32 DATUM, W_backtrace_id 2, W_datum (R_NUM 5)]
   \<and> deserialize_term_tree
     [W_int32 5, W_backtrace_id 0, W_size 1, W_int32 DATUM, W_backtrace_id 1, W_datum (R_NUM 3),
      W_size 1, W_string ''k'', W_int32 DATUM, W_backtrace_id 2, W_datum (R_NUM 5)]
     = Inr (Raw_term 5 0 [] UNINITIALIZED None [Raw_term DATUM 1 [] (R_NUM 3) None [] []]
            [Raw_term DATUM 2 ''k'' (R_NUM 5) None [] []], [])
   \<and> struct_eq
     (Raw_term 5 0 [] UNINITIALIZED None [Raw_term DATUM 1 [] (R_NUM 3) None [] []]
        [Raw_term DATUM 2 ''k'' (R_NUM 5) None [] []])
     (Raw_term 5 0 [] UNINITIALIZED None [Raw_term DATUM 1 [] (R_NUM 3) None [] []]
        [Raw_term DATUM 2 ''k'' (R_NUM 5) None [] []])"
proof -
  let ?t = "Raw_term 5 0 [] UNINITIALIZED None [Raw_term DATUM 1 [] (R_NUM 3) None [] []]
        [Raw_term DATUM 2 ''k'' (R_NUM 5) None [] []]"
  have n: "no_references ?t" by (simp add: DATUM_def REFERENCE_def)
  from latest_codec_round_trip [OF n, of "[]"] obtain w t' where
    "serialize_term_tree ?t = Inr w" "deserialize_term_tree (w @ []) = Inr (t', [])"
    "struct_eq ?t t'" by blast
  then have "struct_eq ?t ?t"
    by (simp only: serialize_scenario deserialize_scenario append_Nil2 sum.inject prod.inject)
       simp
  with n show ?thesis by (simp only: serialize_scenario deserialize_scenario simp_thms)
qed

text \<open>
  C10, at a term that is itself a \<open>REFERENCE\<close>, here to the datum 5: the first value
  written is the term type \<open>REFERENCE\<close>, and the datum of the target is not written.
  Reading the stream back gives a \<open>REFERENCE\<close> with a null target.
\<close>

theorem serialize_reference_root:
  "serialize_term_tree
     (Raw_term REFERENCE 0 [] UNINITIALIZED (Some (Raw_term DATUM 0 [] (R_NUM 5) None [] [])) [] [])
   = Inr [W_int32 REFERENCE, W_backtrace_id 0, W_size 0, W_size 0]
   \<and> deserialize_term_tree [W_int32 REFERENCE, W_backtrace_id 0, W_size 0, W_size 0]
   = Inr (Raw_term REFERENCE 0 [] UNINITIALIZED None [] [], [])"
  by (simp add: serialize_term_tree.simps num_args_def num_optargs_def args_def optargs_def
      deserialize_term_tree.simps deserialize_args.simps deserialize_optargs.simps
      new_term_value_def DATUM_def REFERENCE_def)

end
